theory Spec2Isabelle
  imports Main "HOL-Library.Word"
begin

section \<open>JavaScript strings\<close>

text \<open>
  A JavaScript string is a sequence of UTF-16 code units, and the regular expressions
  of \<^verbatim>\<open>App.tsx\<close> (written without the \<^verbatim>\<open>u\<close> flag) work on code units. A string is
  therefore a list of 16-bit words; \<open>js\<close> embeds an ASCII literal.
\<close>

type_synonym jsstring = "16 word list"

definition js :: "string \<Rightarrow> jsstring" where
  "js s = map of_char s"

text \<open>
  The class \<^verbatim>\<open>\s\<close> of a regular expression and the characters removed by
  \<^verbatim>\<open>String.prototype.trim\<close> are the same set: WhiteSpace and LineTerminator of ECMAScript.
\<close>

definition isWhiteSpace :: "16 word \<Rightarrow> bool" where
  "isWhiteSpace c =
     (c \<in> set [0x09, 0x0A, 0x0B, 0x0C, 0x0D, 0x20, 0xA0, 0x1680,
                0x2028, 0x2029, 0x202F, 0x205F, 0x3000, 0xFEFF]
      \<or> (0x2000 \<le> c \<and> c \<le> 0x200A))"

text \<open>\<^verbatim>\<open>s.trim()\<close>\<close>

definition trim :: "jsstring \<Rightarrow> jsstring" where
  "trim s = rev (dropWhile isWhiteSpace (rev (dropWhile isWhiteSpace s)))"

text \<open>\<^verbatim>\<open>s.startsWith(p)\<close>\<close>

definition startsWith :: "jsstring \<Rightarrow> jsstring \<Rightarrow> bool" where
  "startsWith s p = (take (length p) s = p)"

text \<open>
  \<^verbatim>\<open>s.split(sep)\<close> for a separator of one code unit. The result is never empty:
  \<^verbatim>\<open>"".split('/')\<close> is \<^verbatim>\<open>[""]\<close> and \<^verbatim>\<open>"a/".split('/')\<close> is \<^verbatim>\<open>["a", ""]\<close>.
\<close>

fun js_split :: "16 word \<Rightarrow> jsstring \<Rightarrow> jsstring list" where
  "js_split sep [] = [[]]"
| "js_split sep (c # cs) =
     (if c = sep then [] # js_split sep cs
      else (case js_split sep cs of
              [] \<Rightarrow> [[c]]
            | p # ps \<Rightarrow> (c # p) # ps))"

section \<open>Filename sanitization (\<^verbatim>\<open>cleanFileName\<close>)\<close>

text \<open>
  \<^verbatim>\<open>
  const cleanFileName = (name: string) => {
    return name
      .replace(/[^a-zA-Z0-9 ]/g, ' ')
      .replace(/\s+/g, ' ')
      .trim();
  };
  \<close>
  The function is declared twice in \<^verbatim>\<open>App.tsx\<close> (in \<^verbatim>\<open>EditModal\<close> and in \<^verbatim>\<open>App\<close>), with
  the same body.
\<close>

text \<open>The character class \<^verbatim>\<open>[a-zA-Z0-9 ]\<close>.\<close>

definition isAlnumOrSpace :: "16 word \<Rightarrow> bool" where
  "isAlnumOrSpace c =
     ((0x61 \<le> c \<and> c \<le> 0x7A) \<or> (0x41 \<le> c \<and> c \<le> 0x5A)
      \<or> (0x30 \<le> c \<and> c \<le> 0x39) \<or> c = 0x20)"

text \<open>\<^verbatim>\<open>.replace(/[^a-zA-Z0-9 ]/g, ' ')\<close>: every code unit outside the class becomes a space.\<close>

definition replaceNonAlnum :: "jsstring \<Rightarrow> jsstring" where
  "replaceNonAlnum s = map (\<lambda>c. if isAlnumOrSpace c then c else 0x20) s"

text \<open>\<^verbatim>\<open>.replace(/\s+/g, ' ')\<close>: every maximal run of white space becomes one space.\<close>

function replaceWhiteSpaceRuns :: "jsstring \<Rightarrow> jsstring" where
  "replaceWhiteSpaceRuns [] = []"
| "replaceWhiteSpaceRuns (c # cs) =
     (if isWhiteSpace c then 0x20 # replaceWhiteSpaceRuns (dropWhile isWhiteSpace cs)
      else c # replaceWhiteSpaceRuns cs)"
  by pat_completeness auto
termination
  by (relation "measure length") (auto simp: less_Suc_eq_le length_dropWhile_le)

definition cleanFileName :: "jsstring \<Rightarrow> jsstring" where
  "cleanFileName name = trim (replaceWhiteSpaceRuns (replaceNonAlnum name))"

text \<open>
  The shop name of the sanitization example: \<^verbatim>\<open>N\<close>, the code unit U+00E9 (e with an acute
  accent), then \<^verbatim>\<open>ko's Shop! #1\<close>.
\<close>

definition neko_shop :: jsstring where
  "neko_shop = js ''N'' @ [0xE9] @ js ''ko's Shop! #1''"

section \<open>Data model (\<^verbatim>\<open>types.ts\<close>)\<close>

text \<open>
  A browser \<^verbatim>\<open>File\<close>, reduced to what the handlers read: its relative path, its MIME
  type, the data URL that \<^verbatim>\<open>FileReader.readAsDataURL\<close> delivers (\<open>None\<close> when the reader
  fires \<^verbatim>\<open>onerror\<close>, which rejects \<^verbatim>\<open>fileToBase64\<close>), and the handle that
  \<^verbatim>\<open>URL.createObjectURL\<close> mints for it.
\<close>

record File =
  webkitRelativePath :: jsstring
  ftype :: jsstring
  dataURL :: "jsstring option"
  objectURL :: jsstring

record ImageFile =
  image_id :: jsstring
  image_file :: File
  preview :: jsstring
  base64 :: jsstring

datatype status = Idle | Processing | Completed | Error | Stopping

datatype mode = Normal | Pro

record BatchItem =
  batch_id :: jsstring
  name :: jsstring
  images :: "ImageFile list"
  status :: status
  processingMode :: "mode option"
  resultsNormal :: "jsstring list"
  resultsPro :: "jsstring list"
  customPrompt :: "jsstring option"
  error :: "jsstring option"

text \<open>The \<^verbatim>\<open>editTarget\<close> state of \<^verbatim>\<open>App\<close>.\<close>

record EditTarget =
  et_batchId :: jsstring
  et_index :: nat
  et_data :: jsstring
  et_mode :: mode

text \<open>
  The React state of the \<^verbatim>\<open>App\<close> component. \<^verbatim>\<open>hasProKey\<close> and \<^verbatim>\<open>zoomImage\<close> are left
  out: no handler modelled below reads them, and the only one that writes \<^verbatim>\<open>hasProKey\<close>
  (\<^verbatim>\<open>handleConnectKey\<close>) touches nothing else.
\<close>

record AppState =
  batches :: "BatchItem list"
  isProcessingAll :: bool
  shouldStopGlobal :: bool
  outputsPerBatch :: nat
  editTarget :: "EditTarget option"

text \<open>The initial values given to \<^verbatim>\<open>useState\<close>.\<close>

definition initialState :: AppState where
  "initialState =
     \<lparr>batches = [], isProcessingAll = False, shouldStopGlobal = False,
      outputsPerBatch = 1, editTarget = None\<rparr>"

text \<open>
  Exceptions that reject a handler's promise before it reaches its \<^verbatim>\<open>setBatches\<close>:
  a \<^verbatim>\<open>TypeError\<close> of the engine and a failed file read.
\<close>

datatype js_error = TypeError | FileReadError

text \<open>\<^verbatim>\<open>b[isPro ? 'resultsPro' : 'resultsNormal']\<close>, read and written.\<close>

definition results :: "mode \<Rightarrow> BatchItem \<Rightarrow> jsstring list" where
  "results m b = (if m = Pro then resultsPro b else resultsNormal b)"

definition setResults :: "mode \<Rightarrow> jsstring list \<Rightarrow> BatchItem \<Rightarrow> BatchItem" where
  "setResults m rs b = (if m = Pro then b\<lparr>resultsPro := rs\<rparr> else b\<lparr>resultsNormal := rs\<rparr>)"

text \<open>\<^verbatim>\<open>xs.findIndex(p)\<close>, with \<open>None\<close> for \<^verbatim>\<open>-1\<close>.\<close>

fun findIndex :: "('a \<Rightarrow> bool) \<Rightarrow> 'a list \<Rightarrow> nat option" where
  "findIndex p [] = None"
| "findIndex p (x # xs) =
     (if p x then Some 0 else map_option Suc (findIndex p xs))"

text \<open>\<^verbatim>\<open>xs.map((r, i) => f(r, i))\<close>\<close>

definition mapIndexed :: "('a \<Rightarrow> nat \<Rightarrow> 'b) \<Rightarrow> 'a list \<Rightarrow> 'b list" where
  "mapIndexed f xs = map (\<lambda>(i, r). f r i) (zip [0..<length xs] xs)"

text \<open>\<^verbatim>\<open>setBatches(p => f(p))\<close>\<close>

definition setBatches :: "(BatchItem list \<Rightarrow> BatchItem list) \<Rightarrow> AppState \<Rightarrow> AppState" where
  "setBatches f s = s\<lparr>batches := f (batches s)\<rparr>"

section \<open>Folder import (\<^verbatim>\<open>handleFolderUpload\<close>)\<close>

text \<open>
  \<^verbatim>\<open>
  const grouped: { [key: string]: File[] } = {};
  files.forEach(f => {
    if (!f.type.startsWith('image/')) return;
    const parts = (f as any).webkitRelativePath.split('/');
    if (parts.length > 2) {
      const name = parts[parts.length - 2];
      if (!grouped[name]) grouped[name] = [];
      grouped[name].push(f);
    }
  });
  \<close>
  \<^verbatim>\<open>grouped\<close> is an object literal, so its own keys are kept in an association list in
  creation order, and a lookup that misses the own keys falls through to
  \<^verbatim>\<open>Object.prototype\<close>. Every property found there is truthy and none is an array: for
  such a folder name the assignment is skipped and the \<^verbatim>\<open>push\<close> call throws a
  \<^verbatim>\<open>TypeError\<close>, which rejects the handler before it reaches \<^verbatim>\<open>setBatches\<close>.
\<close>

definition objectPrototypeKeys :: "jsstring list" where
  "objectPrototypeKeys =
     [js ''constructor'', js ''hasOwnProperty'', js ''isPrototypeOf'',
      js ''propertyIsEnumerable'', js ''toLocaleString'', js ''toString'', js ''valueOf'',
      js ''__proto__'', js ''__defineGetter__'', js ''__defineSetter__'',
      js ''__lookupGetter__'', js ''__lookupSetter__'']"

type_synonym groups = "(jsstring \<times> File list) list"

text \<open>\<^verbatim>\<open>if (!grouped[name]) grouped[name] = []; grouped[name].push(f);\<close>\<close>

definition pushFile :: "groups \<Rightarrow> jsstring \<Rightarrow> File \<Rightarrow> js_error + groups" where
  "pushFile grouped nm f =
     (case map_of grouped nm of
        Some fs \<Rightarrow> Inr (map (\<lambda>(k, v). if k = nm then (k, v @ [f]) else (k, v)) grouped)
      | None \<Rightarrow>
          if nm \<in> set objectPrototypeKeys then Inl TypeError
          else Inr (grouped @ [(nm, [f])]))"

fun groupFiles :: "File list \<Rightarrow> groups \<Rightarrow> js_error + groups" where
  "groupFiles [] grouped = Inr grouped"
| "groupFiles (f # fs) grouped =
     (if \<not> startsWith (ftype f) (js ''image/'') then groupFiles fs grouped
      else
        (let parts = js_split 0x2F (webkitRelativePath f) in
         if length parts > 2 then
           (case pushFile grouped (parts ! (length parts - 2)) f of
              Inl e \<Rightarrow> Inl e
            | Inr grouped' \<Rightarrow> groupFiles fs grouped')
         else groupFiles fs grouped))"

text \<open>
  \<^verbatim>\<open>Object.entries(grouped)\<close> lists the keys that are array indices (canonical decimal
  numerals below \<open>2\<^sup>3\<^sup>2 - 1\<close>) first, in ascending numeric order, and then the other keys
  in creation order.
\<close>

definition isDigit :: "16 word \<Rightarrow> bool" where
  "isDigit c = (0x30 \<le> c \<and> c \<le> 0x39)"

definition decimalValue :: "jsstring \<Rightarrow> nat" where
  "decimalValue k = foldl (\<lambda>n c. 10 * n + (unat c - 48)) 0 k"

definition isArrayIndex :: "jsstring \<Rightarrow> bool" where
  "isArrayIndex k =
     (k \<noteq> [] \<and> list_all isDigit k \<and> (length k = 1 \<or> hd k \<noteq> 0x30)
      \<and> decimalValue k < 4294967295)"

definition objectEntries :: "(jsstring \<times> 'a) list \<Rightarrow> (jsstring \<times> 'a) list" where
  "objectEntries kvs =
     sort_key (\<lambda>kv. decimalValue (fst kv)) (filter (\<lambda>kv. isArrayIndex (fst kv)) kvs)
     @ filter (\<lambda>kv. \<not> isArrayIndex (fst kv)) kvs"

text \<open>
  \<^verbatim>\<open>
  const newBatches: BatchItem[] = await Promise.all(Object.entries(grouped).map(
    async ([name, fs]) => ({
      id: Math.random().toString(36).substr(2, 9),
      name,
      images: await Promise.all(fs.slice(0, 5).map(async f => ({
        id: Math.random().toString(36).substr(2, 9), file: f,
        preview: URL.createObjectURL(f), base64: await fileToBase64(f) }))),
      status: 'idle', resultsNormal: [], resultsPro: []
    })));
  setBatches(p => [...p, ...newBatches]);
  \<close>
  The identifiers drawn from \<^verbatim>\<open>Math.random\<close> are a parameter \<open>rnd\<close>, a supply indexed
  by the order of the draws: each entry draws the batch's identifier and then one for
  each of its (at most five) images, before any file has been read. A file that cannot
  be read rejects \<^verbatim>\<open>Promise.all\<close>, and the handler stops before \<^verbatim>\<open>setBatches\<close>.
\<close>

fun newImages :: "(nat \<Rightarrow> jsstring) \<Rightarrow> nat \<Rightarrow> File list \<Rightarrow> js_error + ImageFile list" where
  "newImages rnd n [] = Inr []"
| "newImages rnd n (f # fs) =
     (case dataURL f of
        None \<Rightarrow> Inl FileReadError
      | Some b64 \<Rightarrow>
          (case newImages rnd (Suc n) fs of
             Inl e \<Rightarrow> Inl e
           | Inr imgs \<Rightarrow>
               Inr (\<lparr>image_id = rnd n, image_file = f, preview = objectURL f,
                     base64 = b64\<rparr> # imgs)))"

fun newBatches ::
  "(nat \<Rightarrow> jsstring) \<Rightarrow> nat \<Rightarrow> (jsstring \<times> File list) list \<Rightarrow> js_error + BatchItem list"
where
  "newBatches rnd n [] = Inr []"
| "newBatches rnd n ((nm, fs) # entries) =
     (case newImages rnd (Suc n) (take 5 fs) of
        Inl e \<Rightarrow> Inl e
      | Inr imgs \<Rightarrow>
          (case newBatches rnd (Suc n + length (take 5 fs)) entries of
             Inl e \<Rightarrow> Inl e
           | Inr bs \<Rightarrow>
               Inr (\<lparr>batch_id = rnd n, name = nm, images = imgs, status = Idle,
                     processingMode = None, resultsNormal = [], resultsPro = [],
                     customPrompt = None, error = None\<rparr> # bs)))"

definition handleFolderUpload ::
  "(nat \<Rightarrow> jsstring) \<Rightarrow> File list \<Rightarrow> AppState \<Rightarrow> js_error + AppState"
where
  "handleFolderUpload rnd files s =
     (case groupFiles files [] of
        Inl e \<Rightarrow> Inl e
      | Inr grouped \<Rightarrow>
          (case newBatches rnd 0 (objectEntries grouped) of
             Inl e \<Rightarrow> Inl e
           | Inr bs \<Rightarrow> Inr (setBatches (\<lambda>p. p @ bs) s)))"

text \<open>
  What the import does with one file, read off the three lines of the \<^verbatim>\<open>forEach\<close> body: the
  segments of its relative path, whether it is put into a group at all (an image whose
  path has more than two segments), and the name of its group (the second-to-last
  segment). \<open>filesOf\<close> is a group's file list, empty for a key that \<^verbatim>\<open>grouped\<close> does not own.
\<close>

definition pathParts :: "File \<Rightarrow> jsstring list" where
  "pathParts f = js_split 0x2F (webkitRelativePath f)"

definition isGrouped :: "File \<Rightarrow> bool" where
  "isGrouped f = (startsWith (ftype f) (js ''image/'') \<and> 2 < length (pathParts f))"

definition folderName :: "File \<Rightarrow> jsstring" where
  "folderName f = pathParts f ! (length (pathParts f) - 2)"

definition filesOf :: "groups \<Rightarrow> jsstring \<Rightarrow> File list" where
  "filesOf g k = (case map_of g k of None \<Rightarrow> [] | Some fs \<Rightarrow> fs)"

section \<open>Editing the reference images of a batch\<close>

text \<open>
  \<^verbatim>\<open>
  const handleInputDropReplace = async (batchId: string, imgId: string, file: File) => {
    if (!file.type.startsWith('image/')) return;
    const b64 = await fileToBase64(file);
    const preview = URL.createObjectURL(file);
    setBatches(p => p.map(b => b.id === batchId ? { ...b,
      images: b.images.map(i => i.id === imgId ? { ...i, base64: b64, preview, file } : i)
    } : b));
  };
  \<close>
\<close>

definition handleInputDropReplace ::
  "jsstring \<Rightarrow> jsstring \<Rightarrow> File \<Rightarrow> AppState \<Rightarrow> js_error + AppState"
where
  "handleInputDropReplace batchId imgId f s =
     (if \<not> startsWith (ftype f) (js ''image/'') then Inr s
      else
        (case dataURL f of
           None \<Rightarrow> Inl FileReadError
         | Some b64 \<Rightarrow>
             Inr (setBatches (map (\<lambda>b.
               if batch_id b = batchId
               then b\<lparr>images := map (\<lambda>i.
                      if image_id i = imgId
                      then i\<lparr>base64 := b64, preview := objectURL f, image_file := f\<rparr>
                      else i) (images b)\<rparr>
               else b)) s)))"

text \<open>
  \<^verbatim>\<open>
  const handleInputDropAdd = async (batchId: string, file: File) => {
    if (!file.type.startsWith('image/')) return;
    const b64 = await fileToBase64(file);
    const preview = URL.createObjectURL(file);
    setBatches(p => p.map(b => b.id === batchId ? { ...b,
      images: [...b.images, { id: Math.random().toString(36).substr(2, 9), file, preview,
                              base64: b64 }].slice(0, 5)
    } : b));
  };
  \<close>
  The identifier drawn from \<^verbatim>\<open>Math.random\<close> is the parameter \<open>newId\<close>.
\<close>

definition handleInputDropAdd ::
  "jsstring \<Rightarrow> jsstring \<Rightarrow> File \<Rightarrow> AppState \<Rightarrow> js_error + AppState"
where
  "handleInputDropAdd newId batchId f s =
     (if \<not> startsWith (ftype f) (js ''image/'') then Inr s
      else
        (case dataURL f of
           None \<Rightarrow> Inl FileReadError
         | Some b64 \<Rightarrow>
             Inr (setBatches (map (\<lambda>b.
               if batch_id b = batchId
               then b\<lparr>images := take 5 (images b @
                      [\<lparr>image_id = newId, image_file = f, preview = objectURL f,
                        base64 = b64\<rparr>])\<rparr>
               else b)) s)))"

text \<open>
  \<^verbatim>\<open>
  const handleDeleteInput = (batchId: string, imgId: string) => {
    setBatches(p => p.map(b => b.id === batchId ? { ...b,
      images: b.images.filter(i => i.id !== imgId) } : b));
  };
  \<close>
\<close>

definition handleDeleteInput :: "jsstring \<Rightarrow> jsstring \<Rightarrow> AppState \<Rightarrow> AppState" where
  "handleDeleteInput batchId imgId s =
     setBatches (map (\<lambda>b.
       if batch_id b = batchId
       then b\<lparr>images := filter (\<lambda>i. image_id i \<noteq> imgId) (images b)\<rparr>
       else b)) s"

text \<open>
  The four operations on reference images as one step function. A handler whose promise
  rejects has not called \<^verbatim>\<open>setBatches\<close>: the state is the one before.
\<close>

datatype image_op =
    FolderUpload "nat \<Rightarrow> jsstring" "File list"
  | DropAdd jsstring jsstring File
  | DropReplace jsstring jsstring File
  | DeleteInput jsstring jsstring

definition settled :: "AppState \<Rightarrow> js_error + AppState \<Rightarrow> AppState" where
  "settled s r = (case r of Inl e \<Rightarrow> s | Inr s' \<Rightarrow> s')"

fun applyImageOp :: "AppState \<Rightarrow> image_op \<Rightarrow> AppState" where
  "applyImageOp s (FolderUpload rnd files) = settled s (handleFolderUpload rnd files s)"
| "applyImageOp s (DropAdd newId batchId f) = settled s (handleInputDropAdd newId batchId f s)"
| "applyImageOp s (DropReplace batchId imgId f) =
     settled s (handleInputDropReplace batchId imgId f s)"
| "applyImageOp s (DeleteInput batchId imgId) = handleDeleteInput batchId imgId s"

section \<open>The Generation Client and what happens while it is awaited\<close>

text \<open>
  \<^verbatim>\<open>generatePodImage(images, customPrompt, sourceImageBase64, isPro)\<close> is a network call.
  Its outcome is a parameter of the model: the \<open>k\<close>-th call of a run either rejects with
  an \<^verbatim>\<open>Error\<close> whose \<^verbatim>\<open>message\<close> is \<open>m\<close> (\<open>Inl m\<close>) or resolves to a data URL \<open>u\<close>
  (\<open>Inr u\<close>).
\<close>

type_synonym client =
  "nat \<Rightarrow> ImageFile list \<Rightarrow> jsstring option \<Rightarrow> jsstring option \<Rightarrow> bool \<Rightarrow> jsstring + jsstring"

text \<open>
  The call is the only point where a running handler is suspended, and while it is
  suspended the user can press the two stop buttons:
  \<^verbatim>\<open>
  const stopBatch = (batchId: string) => {
    setBatches(p => p.map(b => b.id === batchId ? { ...b, status: 'stopping' } : b));
  };
  ...
  <button onClick={() => { setShouldStopGlobal(true); setIsProcessingAll(false); }} ...>
    Emergency Stop</button>
  \<close>
\<close>

datatype ui_event = StopBatch jsstring | EmergencyStop

definition stopBatch :: "jsstring \<Rightarrow> AppState \<Rightarrow> AppState" where
  "stopBatch batchId s =
     setBatches (map (\<lambda>b. if batch_id b = batchId then b\<lparr>status := Stopping\<rparr> else b)) s"

definition emergencyStop :: "AppState \<Rightarrow> AppState" where
  "emergencyStop s = s\<lparr>shouldStopGlobal := True, isProcessingAll := False\<rparr>"

fun handleEvent :: "AppState \<Rightarrow> ui_event \<Rightarrow> AppState" where
  "handleEvent s (StopBatch batchId) = stopBatch batchId s"
| "handleEvent s EmergencyStop = emergencyStop s"

section \<open>Batch Runner (\<^verbatim>\<open>processBatch\<close>)\<close>

text \<open>
  \<^verbatim>\<open>
  const processBatch = async (batchId: string, mode: 'normal' | 'pro') => {
    const idx = batches.findIndex(b => b.id === batchId);
    if (idx === -1) return;
    setBatches(p => p.map(b => b.id === batchId ? { ...b, status: 'processing',
      processingMode: mode, error: undefined } : b));
    try {
      const batch = batches[idx];
      const resUrls: string[] = [];
      const isPro = mode === 'pro';
      for (let i = 0; i < outputsPerBatch; i++) {
        const currentBatch = batches.find(b => b.id === batchId);
        if (shouldStopGlobal || (currentBatch && currentBatch.status === 'stopping')) break;
        const b64 = await generatePodImage(batch.images, batch.customPrompt, undefined, isPro);
        resUrls.push(b64);
      }
      setBatches(p => p.map(b => {
        if (b.id === batchId) {
          return { ...b, status: 'completed', [isPro ? 'resultsPro' : 'resultsNormal']: resUrls };
        }
        return b;
      }));
    } catch (err: any) {
      if (err.message.includes("PRO_KEY_REQUIRED")) { alert(...); handleConnectKey(); }
      setBatches(p => p.map(b => b.id === batchId ? { ...b, status: 'error',
        error: err.message } : b));
    }
  };
  \<close>
  \<^verbatim>\<open>batches\<close>, \<^verbatim>\<open>shouldStopGlobal\<close> and \<^verbatim>\<open>outputsPerBatch\<close> are constants of the render whose
  closure the handler is: the state \<open>snap\<close>, which no \<^verbatim>\<open>setBatches\<close> changes. The
  updaters passed to \<^verbatim>\<open>setBatches\<close> act on the current state of the component: the state
  \<open>live\<close>, threaded through the run. \<open>during k\<close> lists the stop buttons pressed while the
  \<open>k\<close>-th call is awaited. Beside the outcome and the state, the loop returns the number
  of calls it made. The \<^verbatim>\<open>PRO_KEY_REQUIRED\<close> branch of the handler shows an alert and
  calls \<^verbatim>\<open>handleConnectKey\<close>, which writes \<^verbatim>\<open>hasProKey\<close> only; it has no part in the model.
\<close>

function generationLoop ::
  "AppState \<Rightarrow> jsstring \<Rightarrow> BatchItem \<Rightarrow> bool \<Rightarrow> client \<Rightarrow> (nat \<Rightarrow> ui_event list) \<Rightarrow>
   nat \<Rightarrow> jsstring list \<Rightarrow> AppState \<Rightarrow> (jsstring + jsstring list) \<times> AppState \<times> nat"
where
  "generationLoop snap batchId batch isPro gen during i resUrls live =
     (if i < outputsPerBatch snap then
        (let currentBatch = find (\<lambda>b. batch_id b = batchId) (batches snap) in
         if shouldStopGlobal snap
            \<or> (case currentBatch of None \<Rightarrow> False | Some b \<Rightarrow> status b = Stopping)
         then (Inr resUrls, live, i)
         else
           (let live' = foldl handleEvent live (during i) in
            case gen i (images batch) (customPrompt batch) None isPro of
              Inl msg \<Rightarrow> (Inl msg, live', Suc i)
            | Inr b64 \<Rightarrow>
                generationLoop snap batchId batch isPro gen during (Suc i)
                  (resUrls @ [b64]) live'))
      else (Inr resUrls, live, i))"
  by pat_completeness auto
termination
  by (relation "measure (\<lambda>(snap, batchId, batch, isPro, gen, during, i, resUrls, live).
        outputsPerBatch snap - i)") auto

declare generationLoop.simps [simp del]

definition processBatch ::
  "AppState \<Rightarrow> jsstring \<Rightarrow> mode \<Rightarrow> client \<Rightarrow> (nat \<Rightarrow> ui_event list) \<Rightarrow> AppState \<Rightarrow>
   AppState \<times> nat"
where
  "processBatch snap batchId m gen during live =
     (case findIndex (\<lambda>b. batch_id b = batchId) (batches snap) of
        None \<Rightarrow> (live, 0)
      | Some idx \<Rightarrow>
          (let live1 = setBatches (map (\<lambda>b.
                 if batch_id b = batchId
                 then b\<lparr>status := Processing, processingMode := Some m, error := None\<rparr>
                 else b)) live;
               batch = batches snap ! idx;
               isPro = (m = Pro)
           in case generationLoop snap batchId batch isPro gen during 0 [] live1 of
                (Inr resUrls, live2, calls) \<Rightarrow>
                  (setBatches (map (\<lambda>b.
                     if batch_id b = batchId
                     then setResults m resUrls (b\<lparr>status := Completed\<rparr>)
                     else b)) live2, calls)
              | (Inl msg, live2, calls) \<Rightarrow>
                  (setBatches (map (\<lambda>b.
                     if batch_id b = batchId
                     then b\<lparr>status := Error, error := Some msg\<rparr>
                     else b)) live2, calls)))"

section \<open>Fleet Controller (\<^verbatim>\<open>processAll\<close>)\<close>

text \<open>
  \<^verbatim>\<open>
  const processAll = async (mode: 'normal' | 'pro') => {
    setIsProcessingAll(true);
    setShouldStopGlobal(false);
    for (const b of batches) {
      if (shouldStopGlobal) break;
      await processBatch(b.id, mode);
    }
    setIsProcessingAll(false);
  };
  \<close>
  \<^verbatim>\<open>processBatch\<close> is the closure of the same render as \<^verbatim>\<open>processAll\<close>, so every run of
  the loop reads the same \<open>snap\<close>. The \<open>j\<close>-th run has its own client outcomes \<open>gens j\<close>
  and its own stop presses \<open>durings j\<close>. Beside the state, the handler returns the number
  of runs it began.
\<close>

fun processAllLoop ::
  "AppState \<Rightarrow> mode \<Rightarrow> (nat \<Rightarrow> client) \<Rightarrow> (nat \<Rightarrow> nat \<Rightarrow> ui_event list) \<Rightarrow>
   BatchItem list \<Rightarrow> nat \<Rightarrow> AppState \<Rightarrow> AppState \<times> nat"
where
  "processAllLoop snap m gens durings [] j live = (live, j)"
| "processAllLoop snap m gens durings (b # bs) j live =
     (if shouldStopGlobal snap then (live, j)
      else processAllLoop snap m gens durings bs (Suc j)
             (fst (processBatch snap (batch_id b) m (gens j) (durings j) live)))"

definition processAll ::
  "AppState \<Rightarrow> mode \<Rightarrow> (nat \<Rightarrow> client) \<Rightarrow> (nat \<Rightarrow> nat \<Rightarrow> ui_event list) \<Rightarrow> AppState \<Rightarrow>
   AppState \<times> nat"
where
  "processAll snap m gens durings live =
     (case processAllLoop snap m gens durings (batches snap) 0
             (live\<lparr>isProcessingAll := True, shouldStopGlobal := False\<rparr>) of
        (live', runs) \<Rightarrow> (live'\<lparr>isProcessingAll := False\<rparr>, runs))"

section \<open>Result Editing Session (\<^verbatim>\<open>EditModal\<close>)\<close>

text \<open>
  The state of the \<^verbatim>\<open>EditModal\<close> component. Its \<^verbatim>\<open>image\<close> property is
  \<^verbatim>\<open>editTarget.data\<close> of \<^verbatim>\<open>App\<close>, and it is mounted only while \<^verbatim>\<open>editTarget\<close> is set, so
  a session is a pair of an \<open>AppState\<close> and an \<open>EditModal\<close>, and a handler of the modal
  does nothing where \<^verbatim>\<open>editTarget\<close> is \<^verbatim>\<open>null\<close>. The handlers run from a click on the
  current render, so the values of their closure are those of the state they start in.
\<close>

record EditModal =
  prompt :: jsstring
  isRegenerating :: bool
  history :: "jsstring list"
  redoStack :: "jsstring list"

text \<open>
  \<^verbatim>\<open>
  onSave={(newB64, applyToAll) => {
    const isPro = editTarget.mode === 'pro';
    const key = isPro ? 'resultsPro' : 'resultsNormal';
    setBatches(p => p.map(b => {
      if (b.id === editTarget.batchId) {
        return { ...b, [key]: b[key].map((r, i) =>
                   (i === editTarget.index || applyToAll) ? newB64 : r) };
      }
      return b;
    }));
    if (!applyToAll) setEditTarget(prev => prev ? { ...prev, data: newB64 } : null);
  }}
  \<close>
\<close>

definition onSave :: "jsstring \<Rightarrow> bool \<Rightarrow> AppState \<Rightarrow> AppState" where
  "onSave newB64 applyToAll s =
     (case editTarget s of
        None \<Rightarrow> s
      | Some t \<Rightarrow>
          (let s1 = setBatches (map (\<lambda>b.
                 if batch_id b = et_batchId t
                 then setResults (et_mode t)
                        (mapIndexed (\<lambda>r i. if i = et_index t \<or> applyToAll then newB64 else r)
                           (results (et_mode t) b)) b
                 else b)) s
           in if \<not> applyToAll
              then s1\<lparr>editTarget := map_option (\<lambda>prev. prev\<lparr>et_data := newB64\<rparr>) (editTarget s1)\<rparr>
              else s1))"

text \<open>
  \<^verbatim>\<open>
  const onEditRegenerate = async (prompt: string, currentImage: string) => {
    if (!editTarget) return;
    try {
      const isPro = editTarget.mode === 'pro';
      const newB64 = await generatePodImage([], prompt, currentImage, isPro);
      setEditTarget(prev => prev ? { ...prev, data: newB64 } : null);
      setBatches(p => p.map(b => {
        if (b.id === editTarget.batchId) {
          const key = isPro ? 'resultsPro' : 'resultsNormal';
          return { ...b, [key]: b[key].map((r, i) => (i === editTarget.index) ? newB64 : r) };
        }
        return b;
      }));
    } catch (e) {
      alert("Error regenerating: " + e);
    }
  };
  \<close>
\<close>

definition onEditRegenerate :: "client \<Rightarrow> jsstring \<Rightarrow> jsstring \<Rightarrow> AppState \<Rightarrow> AppState" where
  "onEditRegenerate gen p currentImage s =
     (case editTarget s of
        None \<Rightarrow> s
      | Some t \<Rightarrow>
          (case gen 0 [] (Some p) (Some currentImage) (et_mode t = Pro) of
             Inl e \<Rightarrow> s
           | Inr newB64 \<Rightarrow>
               setBatches (map (\<lambda>b.
                 if batch_id b = et_batchId t
                 then setResults (et_mode t)
                        (mapIndexed (\<lambda>r i. if i = et_index t then newB64 else r)
                           (results (et_mode t) b)) b
                 else b))
                 (s\<lparr>editTarget := map_option (\<lambda>prev. prev\<lparr>et_data := newB64\<rparr>) (editTarget s)\<rparr>)))"

text \<open>
  \<^verbatim>\<open>
  const handleRegenerate = async () => {
    if (!prompt.trim()) return;
    setHistory(prev => [...prev, image]);
    setRedoStack([]);
    setIsRegenerating(true);
    await onRegenerate(prompt, image);
    setIsRegenerating(false);
    setPrompt('');
  };
  \<close>
\<close>

definition handleRegenerate :: "client \<Rightarrow> AppState \<times> EditModal \<Rightarrow> AppState \<times> EditModal" where
  "handleRegenerate gen sm =
     (case sm of (s, m) \<Rightarrow>
        (case editTarget s of
           None \<Rightarrow> (s, m)
         | Some t \<Rightarrow>
             if trim (prompt m) = [] then (s, m)
             else
               (let m1 = m\<lparr>history := history m @ [et_data t], redoStack := [],
                            isRegenerating := True\<rparr>;
                    s1 = onEditRegenerate gen (prompt m) (et_data t) s
                in (s1, m1\<lparr>isRegenerating := False, prompt := []\<rparr>))))"

text \<open>
  \<^verbatim>\<open>
  const handleUndo = () => {
    if (history.length === 0) return;
    const previous = history[history.length - 1];
    setRedoStack(prev => [...prev, image]);
    setHistory(prev => prev.slice(0, -1));
    onSave(previous, false);
  };
  const handleRedo = () => {
    if (redoStack.length === 0) return;
    const next = redoStack[redoStack.length - 1];
    setHistory(prev => [...prev, image]);
    setRedoStack(prev => prev.slice(0, -1));
    onSave(next, false);
  };
  \<close>
\<close>

definition handleUndo :: "AppState \<times> EditModal \<Rightarrow> AppState \<times> EditModal" where
  "handleUndo sm =
     (case sm of (s, m) \<Rightarrow>
        (case editTarget s of
           None \<Rightarrow> (s, m)
         | Some t \<Rightarrow>
             if history m = [] then (s, m)
             else
               (let previous = last (history m)
                in (onSave previous False s,
                    m\<lparr>redoStack := redoStack m @ [et_data t],
                      history := butlast (history m)\<rparr>))))"

definition handleRedo :: "AppState \<times> EditModal \<Rightarrow> AppState \<times> EditModal" where
  "handleRedo sm =
     (case sm of (s, m) \<Rightarrow>
        (case editTarget s of
           None \<Rightarrow> (s, m)
         | Some t \<Rightarrow>
             if redoStack m = [] then (s, m)
             else
               (let next = last (redoStack m)
                in (onSave next False s,
                    m\<lparr>history := history m @ [et_data t],
                      redoStack := butlast (redoStack m)\<rparr>))))"

text \<open>The current image of a session: the \<^verbatim>\<open>image\<close> property of the modal.\<close>

definition sessionImage :: "AppState \<times> EditModal \<Rightarrow> jsstring option" where
  "sessionImage sm = map_option et_data (editTarget (fst sm))"

section \<open>Example inputs\<close>

text \<open>An image file at a given relative path, readable, of type \<^verbatim>\<open>image/png\<close>.\<close>

definition pngFile :: "string \<Rightarrow> File" where
  "pngFile path =
     \<lparr>webkitRelativePath = js path, ftype = js ''image/png'',
      dataURL = Some (js ''data:image/png;base64,'' @ js path),
      objectURL = js ''blob:'' @ js path\<rparr>"

text \<open>A supply of identifiers: \<^verbatim>\<open>a\<close>, \<^verbatim>\<open>aa\<close>, \<^verbatim>\<open>aaa\<close>, ...\<close>

definition demo_rnd :: "nat \<Rightarrow> jsstring" where
  "demo_rnd n = replicate (Suc n) 0x61"

text \<open>The file set of the folder import example, with the relative paths as the
  specification writes them, and the same files below a selected folder \<^verbatim>\<open>Shop\<close>.\<close>

definition flat_files :: "File list" where
  "flat_files = [pngFile ''Cats/a.png'', pngFile ''Cats/b.png'', pngFile ''Dogs/c.png'']"

definition nested_files :: "File list" where
  "nested_files =
     [pngFile ''Shop/Cats/a.png'', pngFile ''Shop/Cats/b.png'', pngFile ''Shop/Dogs/c.png'']"

text \<open>Seven images in one folder.\<close>

definition seven_files :: "File list" where
  "seven_files =
     [pngFile ''Shop/Cats/a.png'', pngFile ''Shop/Cats/b.png'', pngFile ''Shop/Cats/c.png'',
      pngFile ''Shop/Cats/d.png'', pngFile ''Shop/Cats/e.png'', pngFile ''Shop/Cats/f.png'',
      pngFile ''Shop/Cats/g.png'']"

text \<open>A store with one idle batch that holds results of earlier runs on both tiers, and
  an output quantity of 2.\<close>

definition demo_batch :: BatchItem where
  "demo_batch =
     \<lparr>batch_id = js ''b1'', name = js ''Cats'',
      images = [\<lparr>image_id = js ''i1'', image_file = pngFile ''Shop/Cats/a.png'',
                 preview = js ''blob:1'', base64 = js ''data:image/png;base64,QQ==''\<rparr>],
      status = Idle, processingMode = None,
      resultsNormal = [js ''old-normal''], resultsPro = [js ''old-pro''],
      customPrompt = None, error = None\<rparr>"

definition demo_state :: AppState where
  "demo_state =
     \<lparr>batches = [demo_batch], isProcessingAll = False, shouldStopGlobal = False,
      outputsPerBatch = 2, editTarget = None\<rparr>"

text \<open>The same store after \<^verbatim>\<open>Emergency Stop\<close> has been pressed.\<close>

definition stopped_state :: AppState where
  "stopped_state = emergencyStop demo_state"

text \<open>A client whose calls all succeed (the \<open>k\<close>-th delivers \<^verbatim>\<open>new0\<close>, \<^verbatim>\<open>new1\<close>, ...), one
  whose second call fails, and one whose calls all fail.\<close>

definition ok_client :: client where
  "ok_client k imgs p src isPro = Inr (js ''new'' @ [of_nat k + 0x30])"

definition failing_client :: client where
  "failing_client k imgs p src isPro =
     (if k = 1 then Inl (js ''quota exceeded'') else Inr (js ''new'' @ [of_nat k + 0x30]))"

definition refusing_client :: client where
  "refusing_client k imgs p src isPro = Inl (js ''quota exceeded'')"

text \<open>No stop button pressed during a run; the \<^verbatim>\<open>STOP\<close> button of the batch pressed while
  the first call is awaited.\<close>

definition no_events :: "nat \<Rightarrow> ui_event list" where
  "no_events k = []"

definition stop_during_first :: "nat \<Rightarrow> ui_event list" where
  "stop_during_first k = (if k = 0 then [StopBatch (js ''b1'')] else [])"

text \<open>\<^verbatim>\<open>Emergency Stop\<close> pressed while the first call is awaited.\<close>

definition emergency_during_first :: "nat \<Rightarrow> ui_event list" where
  "emergency_during_first k = (if k = 0 then [EmergencyStop] else [])"

text \<open>An editing session on the first normal result of the batch, with one image to
  undo to and one to redo to.\<close>

definition demo_session :: "AppState \<times> EditModal" where
  "demo_session =
     (demo_state\<lparr>editTarget := Some \<lparr>et_batchId = js ''b1'', et_index = 0,
                                     et_data = js ''old-normal'', et_mode = Normal\<rparr>\<rparr>,
      \<lparr>prompt = js ''make it red'', isRegenerating = False,
       history = [js ''older''], redoStack = [js ''newer'']\<rparr>)"

text \<open>Importing the folder of seven images and then dropping an eighth file onto the
  batch made from it (whose identifier is the first one drawn, \<^verbatim>\<open>a\<close>).\<close>

definition demo_ops :: "image_op list" where
  "demo_ops =
     [FolderUpload demo_rnd seven_files,
      DropAdd (js ''n1'') (js ''a'') (pngFile ''h.png'')]"

section \<open>Evaluation on concrete inputs\<close>

text \<open>The defining equations that the simplifier unfolds to run the model on the
  example inputs.\<close>

lemmas string_eval = js_def startsWith_def

lemmas import_eval =
  handleFolderUpload_def pushFile_def objectEntries_def isArrayIndex_def isDigit_def
  decimalValue_def objectPrototypeKeys_def setBatches_def settled_def pngFile_def
  demo_rnd_def initialState_def

lemmas clean_eval =
  cleanFileName_def replaceNonAlnum_def trim_def isAlnumOrSpace_def isWhiteSpace_def

lemmas run_eval =
  processBatch_def generationLoop.simps setBatches_def setResults_def results_def
  stopBatch_def emergencyStop_def demo_state_def demo_batch_def

lemmas session_eval =
  handleRegenerate_def handleUndo_def handleRedo_def onEditRegenerate_def onSave_def
  sessionImage_def setBatches_def setResults_def results_def mapIndexed_def
  demo_session_def demo_state_def demo_batch_def

section \<open>Folder import groups by the second-to-last path segment\<close>

lemma map_fst_push:
  "map fst (map (\<lambda>(k, v). if k = nm then (k, v @ [f]) else (k, v)) g) = map fst g"
  by (induction g) auto

lemma map_of_push:
  "map_of (map (\<lambda>(k, v). if k = nm then (k, v @ [f]) else (k, v)) g) k
     = map_option (\<lambda>v. if k = nm then v @ [f] else v) (map_of g k)"
  by (induction g) auto

text \<open>A successful \<^verbatim>\<open>push\<close> adds the key at the end if it is new, and appends the file to
  the list of that key and of no other.\<close>

lemma pushFile_Inr:
  assumes "pushFile g nm f = Inr g'"
  shows "map fst g' = (if nm \<in> set (map fst g) then map fst g else map fst g @ [nm])"
    and "filesOf g' k = filesOf g k @ (if k = nm then [f] else [])"
proof -
  show "map fst g' = (if nm \<in> set (map fst g) then map fst g else map fst g @ [nm])"
  proof (cases "map_of g nm")
    case None
    then have "nm \<notin> set (map fst g)" by (simp add: map_of_eq_None_iff)
    with assms None show ?thesis by (auto simp: pushFile_def split: if_splits)
  next
    case (Some fs)
    then have "nm \<in> set (map fst g)"
      by (metis map_of_eq_None_iff option.distinct(1) set_map)
    moreover from assms Some
    have "g' = map (\<lambda>(k, v). if k = nm then (k, v @ [f]) else (k, v)) g"
      by (simp add: pushFile_def)
    ultimately show ?thesis by (simp only: map_fst_push if_True)
  qed
  show "filesOf g' k = filesOf g k @ (if k = nm then [f] else [])"
  proof (cases "map_of g nm")
    case None
    with assms have "g' = g @ [(nm, [f])]" by (auto simp: pushFile_def split: if_splits)
    with None show ?thesis by (cases "map_of g k") (auto simp: filesOf_def map_add_def)
  next
    case (Some fs)
    with assms have "g' = map (\<lambda>(k, v). if k = nm then (k, v @ [f]) else (k, v)) g"
      by (simp add: pushFile_def)
    then show ?thesis using Some by (cases "map_of g k") (auto simp: filesOf_def map_of_push)
  qed
qed

text \<open>The \<^verbatim>\<open>forEach\<close> loop, from any \<^verbatim>\<open>grouped\<close> with distinct keys.\<close>

lemma groupFiles_Inr:
  "groupFiles files g = Inr g' \<Longrightarrow> distinct (map fst g) \<Longrightarrow>
     distinct (map fst g') \<and>
     set (map fst g') = set (map fst g) \<union> folderName ` {f \<in> set files. isGrouped f} \<and>
     (\<forall>k. filesOf g' k
            = filesOf g k @ filter (\<lambda>f. isGrouped f \<and> folderName f = k) files)"
proof (induction files arbitrary: g)
  case Nil
  then show ?case by simp
next
  case (Cons f files)
  show ?case
  proof (cases "isGrouped f")
    case False
    with Cons.prems have "groupFiles files g = Inr g'"
      by (auto simp: isGrouped_def pathParts_def Let_def split: if_splits)
    from Cons.IH [OF this Cons.prems(2)] False show ?thesis by auto
  next
    case True
    with Cons.prems obtain g1 where
      push: "pushFile g (folderName f) f = Inr g1" and rest: "groupFiles files g1 = Inr g'"
      by (auto simp: isGrouped_def folderName_def pathParts_def Let_def
               split: if_splits sum.splits)
    note p = pushFile_Inr [OF push]
    from p(1) Cons.prems(2) have d1: "distinct (map fst g1)" by (auto split: if_splits)
    from p(1) have s1: "set (map fst g1) = insert (folderName f) (set (map fst g))"
      by (auto split: if_splits)
    from Cons.IH [OF rest d1] have
      IH1: "distinct (map fst g')"
      and IH2: "set (map fst g') = set (map fst g1) \<union> folderName ` {f \<in> set files. isGrouped f}"
      and IH3: "\<And>k. filesOf g' k
            = filesOf g1 k @ filter (\<lambda>f. isGrouped f \<and> folderName f = k) files"
      by simp_all
    have "set (map fst g') = set (map fst g) \<union> folderName ` {x \<in> set (f # files). isGrouped x}"
      using IH2 s1 True by auto
    moreover have "filesOf g' k
            = filesOf g k @ filter (\<lambda>x. isGrouped x \<and> folderName x = k) (f # files)" for k
      using IH3 [of k] p(2) [of k] True by auto
    ultimately show ?thesis using IH1 by blast
  qed
qed

text \<open>\<^verbatim>\<open>Object.entries\<close> reorders the entries and neither drops nor repeats one.\<close>

lemma objectEntries_set: "set (objectEntries kvs) = set kvs"
  by (auto simp: objectEntries_def)

lemma objectEntries_distinct:
  assumes "distinct (map fst kvs)"
  shows "distinct (map fst (objectEntries kvs))"
proof -
  from assms have d: "distinct kvs" and i: "inj_on fst (set kvs)"
    by (simp_all add: distinct_map)
  have "distinct (objectEntries kvs)"
    using d by (auto simp: objectEntries_def)
  moreover have "inj_on fst (set (objectEntries kvs))"
    using i by (simp add: objectEntries_set)
  ultimately show ?thesis by (simp add: distinct_map)
qed

lemma newImages_files: "newImages rnd n fs = Inr imgs \<Longrightarrow> map image_file imgs = fs"
  by (induction fs arbitrary: n imgs) (auto split: option.splits sum.splits)

text \<open>Each entry becomes one batch: its key is the name, its first five files are the
  images.\<close>

lemma newBatches_entries:
  "newBatches rnd n entries = Inr bs \<Longrightarrow>
     map (\<lambda>b. (name b, map image_file (images b))) bs = map (\<lambda>(k, fs). (k, take 5 fs)) entries"
proof (induction entries arbitrary: n bs)
  case Nil
  then show ?case by simp
next
  case (Cons e entries)
  obtain nm fs where e: "e = (nm, fs)" by (cases e)
  from Cons.prems e obtain imgs bs' where
    imgs: "newImages rnd (Suc n) (take 5 fs) = Inr imgs"
    and rest: "newBatches rnd (Suc n + length (take 5 fs)) entries = Inr bs'"
    and bs: "bs = \<lparr>batch_id = rnd n, name = nm, images = imgs, status = Idle,
                  processingMode = None, resultsNormal = [], resultsPro = [],
                  customPrompt = None, error = None\<rparr> # bs'"
    by (auto split: sum.splits)
  from Cons.IH [OF rest] newImages_files [OF imgs] bs e show ?case by simp
qed

lemma handleFolderUpload_groups:
  assumes "handleFolderUpload rnd files s = Inr s'"
  shows "\<exists>bs. batches s' = batches s @ bs \<and>
           distinct (map name bs) \<and>
           set (map name bs) = folderName ` {f \<in> set files. isGrouped f} \<and>
           (\<forall>b \<in> set bs. map image_file (images b)
              = take 5 (filter (\<lambda>f. isGrouped f \<and> folderName f = name b) files))"
proof -
  from assms obtain g bs where
    g: "groupFiles files [] = Inr g"
    and bs: "newBatches rnd 0 (objectEntries g) = Inr bs"
    and s': "s' = setBatches (\<lambda>p. p @ bs) s"
    by (auto simp: handleFolderUpload_def split: sum.splits)
  from groupFiles_Inr [OF g] have
    dg: "distinct (map fst g)"
    and sg: "set (map fst g) = folderName ` {f \<in> set files. isGrouped f}"
    and fg: "\<And>k. filesOf g k = filter (\<lambda>f. isGrouped f \<and> folderName f = k) files"
    by (simp_all add: filesOf_def)
  note nb = newBatches_entries [OF bs]
  have names: "map name bs = map fst (objectEntries g)"
  proof -
    from nb have "map fst (map (\<lambda>b. (name b, map image_file (images b))) bs)
        = map fst (map (\<lambda>(k, fs). (k, take 5 fs)) (objectEntries g))"
      by simp
    then show ?thesis by (simp add: comp_def case_prod_unfold)
  qed
  have "map image_file (images b)
          = take 5 (filter (\<lambda>f. isGrouped f \<and> folderName f = name b) files)"
    if "b \<in> set bs" for b
  proof -
    from that have "(name b, map image_file (images b))
        \<in> set (map (\<lambda>b. (name b, map image_file (images b))) bs)"
      by auto
    with nb obtain k fs where kfs: "(k, fs) \<in> set (objectEntries g)"
      and eq: "name b = k" "map image_file (images b) = take 5 fs"
      by auto
    from kfs have "(k, fs) \<in> set g" by (simp add: objectEntries_set)
    with dg have "map_of g k = Some fs" by simp
    with fg [of k] have "fs = filter (\<lambda>f. isGrouped f \<and> folderName f = k) files"
      by (simp add: filesOf_def)
    with eq show ?thesis by simp
  qed
  moreover have "distinct (map name bs)"
    using names objectEntries_distinct [OF dg] by simp
  moreover have "set (map name bs) = folderName ` {f \<in> set files. isGrouped f}"
    using names sg objectEntries_set [of g] by (metis set_map)
  moreover have "batches s' = batches s @ bs"
    using s' by (simp add: setBatches_def)
  ultimately show ?thesis by blast
qed

text \<open>
  Claim C1, as amended. Folder import groups the image files whose relative path has
  more than two segments by the second-to-last segment of that path, and leaves every
  other file out: a successful import appends one batch for each such segment, the names
  of the new batches are distinct, and the images of a batch are the first five of the
  grouped files with that segment, in the order of the file list. Importing
  \<^verbatim>\<open>{"Shop/Cats/a.png", "Shop/Cats/b.png", "Shop/Dogs/c.png"}\<close> produces exactly two new
  batches, one named \<^verbatim>\<open>Cats\<close> holding 2 images and one named \<^verbatim>\<open>Dogs\<close> holding 1 image.
\<close>

theorem handleFolderUpload_groups_by_folder:
  "(handleFolderUpload rnd files s = Inr s' \<longrightarrow>
      (\<exists>bs. batches s' = batches s @ bs \<and>
            distinct (map name bs) \<and>
            set (map name bs) = folderName ` {f \<in> set files. isGrouped f} \<and>
            (\<forall>b \<in> set bs. map image_file (images b)
               = take 5 (filter (\<lambda>f. isGrouped f \<and> folderName f = name b) files))))
   \<and> map (\<lambda>b. (name b, length (images b)))
         (batches (settled initialState (handleFolderUpload demo_rnd nested_files initialState)))
       = [(js ''Cats'', 2), (js ''Dogs'', 1)]"
proof (intro conjI impI)
  assume "handleFolderUpload rnd files s = Inr s'"
  then show "\<exists>bs. batches s' = batches s @ bs \<and>
            distinct (map name bs) \<and>
            set (map name bs) = folderName ` {f \<in> set files. isGrouped f} \<and>
            (\<forall>b \<in> set bs. map image_file (images b)
               = take 5 (filter (\<lambda>f. isGrouped f \<and> folderName f = name b) files))"
    by (rule handleFolderUpload_groups)
next
  show "map (\<lambda>b. (name b, length (images b)))
         (batches (settled initialState (handleFolderUpload demo_rnd nested_files initialState)))
       = [(js ''Cats'', 2), (js ''Dogs'', 1)]"
    by (simp add: import_eval string_eval nested_files_def)
qed

text \<open>The general part at the three nested files: the import succeeds, and the names of
  the batches it appends are the second-to-last segments of the three paths.\<close>

theorem handleFolderUpload_groups_by_folder_witness:
  "handleFolderUpload demo_rnd nested_files initialState
     = Inr (settled initialState (handleFolderUpload demo_rnd nested_files initialState))
   \<and> folderName ` {f \<in> set nested_files. isGrouped f} = {js ''Cats'', js ''Dogs''}
   \<and> (\<exists>bs. batches (settled initialState (handleFolderUpload demo_rnd nested_files initialState))
               = batches initialState @ bs
            \<and> set (map name bs) = {js ''Cats'', js ''Dogs''})"
proof -
  have ok: "handleFolderUpload demo_rnd nested_files initialState
     = Inr (settled initialState (handleFolderUpload demo_rnd nested_files initialState))"
    by (simp add: import_eval string_eval nested_files_def)
  have "map folderName (filter isGrouped nested_files) = [js ''Cats'', js ''Cats'', js ''Dogs'']"
    by (simp add: nested_files_def isGrouped_def folderName_def pathParts_def pngFile_def
          string_eval)
  moreover have "folderName ` {f \<in> set nested_files. isGrouped f}
      = set (map folderName (filter isGrouped nested_files))"
    by auto
  ultimately
  have segs: "folderName ` {f \<in> set nested_files. isGrouped f} = {js ''Cats'', js ''Dogs''}"
    by (simp only: list.set insert_absorb2)
  from handleFolderUpload_groups_by_folder
         [of demo_rnd nested_files initialState
             "settled initialState (handleFolderUpload demo_rnd nested_files initialState)"] ok
  obtain bs where
    "batches (settled initialState (handleFolderUpload demo_rnd nested_files initialState))
       = batches initialState @ bs"
    and "set (map name bs) = folderName ` {f \<in> set nested_files. isGrouped f}"
    by blast
  with ok segs show ?thesis by auto
qed

text \<open>Claim C1 as the specification states it fails: the relative paths
  \<^verbatim>\<open>"Cats/a.png"\<close>, \<^verbatim>\<open>"Cats/b.png"\<close> and \<^verbatim>\<open>"Dogs/c.png"\<close> have two segments each, the guard
  \<^verbatim>\<open>parts.length > 2\<close> skips all three files, and the import appends no batch at all.\<close>

theorem handleFolderUpload_flat_paths_counterexample:
  "handleFolderUpload demo_rnd flat_files initialState = Inr initialState
   \<and> batches initialState = []"
  by (simp add: import_eval string_eval flat_files_def)

section \<open>Filename sanitization\<close>

text \<open>
  Claim C2, as amended. For the input \<^verbatim>\<open>N\<close>, U+00E9, \<^verbatim>\<open>ko's Shop! #1\<close> the filename
  sanitization function returns exactly \<^verbatim>\<open>"N ko s Shop 1"\<close>: each character that is
  neither alphanumeric nor a space is replaced by a space, runs of white space are
  collapsed to one space, and the result is trimmed.
\<close>

theorem cleanFileName_neko_shop:
  "cleanFileName neko_shop = js ''N ko s Shop 1''"
  by (simp add: clean_eval neko_shop_def js_def)

text \<open>Claim C2 as the specification states it fails: the accented letter, the apostrophe,
  the exclamation mark and the hash sign are not deleted, each leaves a space behind.\<close>

theorem cleanFileName_neko_shop_counterexample:
  "cleanFileName neko_shop \<noteq> js ''Nkos Shop 1''"
  by (simp add: clean_eval neko_shop_def js_def)


section \<open>Batch Runner: what a run does to the store\<close>

text \<open>The stop buttons change no field of a batch but its status.\<close>

lemma handleEvent_batches:
  assumes "\<And>b st. g (b\<lparr>status := st\<rparr>) = g b"
  shows "map g (batches (handleEvent s e)) = map g (batches s)"
  by (cases e) (simp_all add: stopBatch_def emergencyStop_def setBatches_def assms)

lemma handleEvents_batches:
  assumes "\<And>b st. g (b\<lparr>status := st\<rparr>) = g b"
  shows "map g (batches (foldl handleEvent s es)) = map g (batches s)"
  by (induction es arbitrary: s) (simp_all add: handleEvent_batches [OF assms])

lemma map_eq_nth: "map g xs = map h ys \<Longrightarrow> i < length ys \<Longrightarrow> g (xs ! i) = h (ys ! i)"
  by (metis length_map nth_map)

lemma status_erase:
  assumes "(b2::BatchItem)\<lparr>status := Idle\<rparr> = b1\<lparr>status := Idle\<rparr>"
  shows "b2 = b1\<lparr>status := status b2\<rparr>"
proof -
  from assms
  have "(b2\<lparr>status := Idle\<rparr>)\<lparr>status := status b2\<rparr> = (b1\<lparr>status := Idle\<rparr>)\<lparr>status := status b2\<rparr>"
    by simp
  then show ?thesis by simp
qed

text \<open>The store after an update of every batch followed by stop presses: as long as
  before, and each batch is the updated one up to its status.\<close>

lemma awaited_erased:
  "map (\<lambda>b. b\<lparr>status := Idle\<rparr>) (batches (foldl handleEvent (setBatches (map f) live) evs))
     = map (\<lambda>b. (f b)\<lparr>status := Idle\<rparr>) (batches live)"
  by (simp add: handleEvents_batches setBatches_def)

lemma awaited_length:
  "length (batches (foldl handleEvent (setBatches (map f) live) evs)) = length (batches live)"
  using awaited_erased [of f live evs] by (metis length_map)

lemma awaited_nth:
  assumes "i < length (batches live)"
  shows "batches (foldl handleEvent (setBatches (map f) live) evs) ! i
         = (f (batches live ! i))
             \<lparr>status := status (batches (foldl handleEvent (setBatches (map f) live) evs) ! i)\<rparr>"
  using map_eq_nth [OF awaited_erased assms] by (rule status_erase)

text \<open>The loop: the state it leaves is the one it started in after the stop presses of
  the calls it made, in order.\<close>

lemma generationLoop_live:
  "generationLoop snap batchId batch isPro gen during i resUrls live = (out, live', c)
   \<Longrightarrow> live' = foldl handleEvent live (concat (map during [i..<c])) \<and> i \<le> c"
proof (induction snap batchId batch isPro gen during i resUrls live
         rule: generationLoop.induct)
  case (1 snap batchId batch isPro gen during i resUrls live)
  note eq = generationLoop.simps [of snap batchId batch isPro gen during i resUrls live]
  show ?case
  proof (cases "i < outputsPerBatch snap \<and>
      \<not> (shouldStopGlobal snap \<or>
         (case find (\<lambda>b. batch_id b = batchId) (batches snap) of
            None \<Rightarrow> False | Some b \<Rightarrow> status b = Stopping))")
    case False
    with "1.prems" eq show ?thesis by (auto simp: Let_def split: if_splits)
  next
    case True
    show ?thesis
    proof (cases "gen i (images batch) (customPrompt batch) None isPro")
      case (Inl msg)
      with True "1.prems" eq show ?thesis by (auto simp: Let_def)
    next
      case (Inr b64)
      with True "1.prems" eq
      have rec: "generationLoop snap batchId batch isPro gen during (Suc i) (resUrls @ [b64])
                   (foldl handleEvent live (during i)) = (out, live', c)"
        by (auto simp: Let_def)
      from "1.IH" [OF _ _ _ _ Inr rec] True
      have "live' = foldl handleEvent (foldl handleEvent live (during i))
                      (concat (map during [Suc i..<c])) \<and> Suc i \<le> c"
        by auto
      then show ?thesis by (simp add: upt_conv_Cons)
    qed
  qed
qed

text \<open>The loop: the number of calls it made is at most the output quantity. When it
  ends normally, the result list is the list it started with followed by what the calls
  delivered, and every call succeeded. When it ends with an exception, the last call made
  raised it, and every call before succeeded.\<close>

lemma generationLoop_outcome:
  "generationLoop snap batchId batch isPro gen during i resUrls live = (out, live', c)
   \<Longrightarrow> c \<le> max i (outputsPerBatch snap) \<and>
       (case out of
          Inr urls \<Rightarrow>
            urls = resUrls
              @ map (\<lambda>k. projr (gen k (images batch) (customPrompt batch) None isPro)) [i..<c]
            \<and> (\<forall>k. i \<le> k \<and> k < c
                  \<longrightarrow> \<not> isl (gen k (images batch) (customPrompt batch) None isPro))
        | Inl msg \<Rightarrow>
            i < c \<and> gen (c - 1) (images batch) (customPrompt batch) None isPro = Inl msg
            \<and> (\<forall>k. i \<le> k \<and> k < c - 1
                  \<longrightarrow> \<not> isl (gen k (images batch) (customPrompt batch) None isPro)))"
proof (induction snap batchId batch isPro gen during i resUrls live
         rule: generationLoop.induct)
  case (1 snap batchId batch isPro gen during i resUrls live)
  note eq = generationLoop.simps [of snap batchId batch isPro gen during i resUrls live]
  show ?case
  proof (cases "i < outputsPerBatch snap \<and>
      \<not> (shouldStopGlobal snap \<or>
         (case find (\<lambda>b. batch_id b = batchId) (batches snap) of
            None \<Rightarrow> False | Some b \<Rightarrow> status b = Stopping))")
    case False
    with "1.prems" eq show ?thesis by (auto simp: Let_def split: if_splits)
  next
    case True
    show ?thesis
    proof (cases "gen i (images batch) (customPrompt batch) None isPro")
      case (Inl msg)
      with True "1.prems" eq show ?thesis by (auto simp: Let_def)
    next
      case (Inr b64)
      with True "1.prems" eq
      have rec: "generationLoop snap batchId batch isPro gen during (Suc i) (resUrls @ [b64])
                   (foldl handleEvent live (during i)) = (out, live', c)"
        by (auto simp: Let_def)
      from "1.IH" [OF _ _ _ _ Inr rec] True
      have IH: "c \<le> max (Suc i) (outputsPerBatch snap) \<and>
       (case out of
          Inr urls \<Rightarrow>
            urls = (resUrls @ [b64])
              @ map (\<lambda>k. projr (gen k (images batch) (customPrompt batch) None isPro)) [Suc i..<c]
            \<and> (\<forall>k. Suc i \<le> k \<and> k < c
                  \<longrightarrow> \<not> isl (gen k (images batch) (customPrompt batch) None isPro))
        | Inl msg \<Rightarrow>
            Suc i < c \<and> gen (c - 1) (images batch) (customPrompt batch) None isPro = Inl msg
            \<and> (\<forall>k. Suc i \<le> k \<and> k < c - 1
                  \<longrightarrow> \<not> isl (gen k (images batch) (customPrompt batch) None isPro)))"
        by auto
      from generationLoop_live [OF rec] have le: "Suc i \<le> c" by simp
      from IH True have bound: "c \<le> max i (outputsPerBatch snap)" by auto
      have first: "\<not> isl (gen i (images batch) (customPrompt batch) None isPro)"
        using Inr by simp
      show ?thesis
      proof (cases out)
        case (Inl msg)
        have "\<not> isl (gen k (images batch) (customPrompt batch) None isPro)"
          if "i \<le> k" "k < c - 1" for k
        proof (cases "k = i")
          case True
          with first show ?thesis by simp
        next
          case False
          with that have "Suc i \<le> k" by simp
          with IH Inl that show ?thesis by simp
        qed
        with IH Inl bound show ?thesis by auto
      next
        case (Inr urls)
        have ok: "\<not> isl (gen k (images batch) (customPrompt batch) None isPro)"
          if "i \<le> k" "k < c" for k
        proof (cases "k = i")
          case True
          with first show ?thesis by simp
        next
          case False
          with that have "Suc i \<le> k" by simp
          with IH Inr that show ?thesis by simp
        qed
        from IH Inr le \<open>gen i (images batch) (customPrompt batch) None isPro = Inr b64\<close>
        have "urls = resUrls
          @ map (\<lambda>k. projr (gen k (images batch) (customPrompt batch) None isPro)) [i..<c]"
          by (simp add: upt_conv_Cons)
        with bound Inr ok show ?thesis by simp
      qed
    qed
  qed
qed

text \<open>A run on a batch that the snapshot does not hold returns at once.\<close>

lemma processBatch_not_found:
  "findIndex (\<lambda>b. batch_id b = batchId) (batches snap) = None
   \<Longrightarrow> processBatch snap batchId m gen during live = (live, 0)"
  by (simp add: processBatch_def)

text \<open>A run on a batch of the snapshot, in terms of what its loop returns.\<close>

lemma processBatch_found:
  assumes "findIndex (\<lambda>b. batch_id b = batchId) (batches snap) = Some idx"
    and "generationLoop snap batchId (batches snap ! idx) (m = Pro) gen during 0 []
       (setBatches (map (\<lambda>b. if batch_id b = batchId
          then b\<lparr>status := Processing, processingMode := Some m, error := None\<rparr> else b)) live)
        = (out, live2, c)"
  shows "processBatch snap batchId m gen during live =
     (setBatches (map (\<lambda>b. if batch_id b = batchId
        then (case out of
                Inr resUrls \<Rightarrow> setResults m resUrls (b\<lparr>status := Completed\<rparr>)
              | Inl msg \<Rightarrow> b\<lparr>status := Error, error := Some msg\<rparr>)
        else b)) live2, c)"
  using assms by (cases out) (simp_all add: processBatch_def cong: if_cong)

lemma processBatch_length:
  "length (batches (fst (processBatch snap batchId m gen during live))) = length (batches live)"
proof (cases "findIndex (\<lambda>b. batch_id b = batchId) (batches snap)")
  case None
  then show ?thesis by (simp add: processBatch_not_found)
next
  case (Some idx)
  obtain out live2 c where
    loop: "generationLoop snap batchId (batches snap ! idx) (m = Pro) gen during 0 []
       (setBatches (map (\<lambda>b. if batch_id b = batchId
          then b\<lparr>status := Processing, processingMode := Some m, error := None\<rparr> else b)) live)
        = (out, live2, c)"
    by (rule prod_cases3)
  from generationLoop_live [OF loop] have "length (batches live2) = length (batches live)"
    by (simp add: awaited_length)
  then show ?thesis by (simp add: processBatch_found [OF Some loop] setBatches_def)
qed

text \<open>The batch at each position after the run: the batch named by the run has the
  outcome written into it, every other batch differs at most in its status.\<close>

lemma processBatch_run:
  assumes found: "findIndex (\<lambda>b. batch_id b = batchId) (batches snap) = Some idx"
    and loop: "generationLoop snap batchId (batches snap ! idx) (m = Pro) gen during 0 []
       (setBatches (map (\<lambda>b. if batch_id b = batchId
          then b\<lparr>status := Processing, processingMode := Some m, error := None\<rparr> else b)) live)
        = (out, live2, c)"
  shows "snd (processBatch snap batchId m gen during live) = c"
    and "i < length (batches live) \<Longrightarrow>
       batches (fst (processBatch snap batchId m gen during live)) ! i =
         (if batch_id (batches live ! i) = batchId
          then (case out of
                  Inr resUrls \<Rightarrow>
                    setResults m resUrls
                      ((batches live ! i)
                         \<lparr>status := Completed, processingMode := Some m, error := None\<rparr>)
                | Inl msg \<Rightarrow>
                    (batches live ! i)
                      \<lparr>status := Error, processingMode := Some m, error := Some msg\<rparr>)
          else (batches live ! i)\<lparr>status := status (batches live2 ! i)\<rparr>)"
proof -
  define mark :: "BatchItem \<Rightarrow> BatchItem" where "mark = (\<lambda>b. if batch_id b = batchId
          then b\<lparr>status := Processing, processingMode := Some m, error := None\<rparr> else b)"
  define finish :: "BatchItem \<Rightarrow> BatchItem" where "finish = (\<lambda>b. if batch_id b = batchId
          then (case out of Inr resUrls \<Rightarrow> setResults m resUrls (b\<lparr>status := Completed\<rparr>)
                | Inl msg \<Rightarrow> b\<lparr>status := Error, error := Some msg\<rparr>) else b)"
  from loop have loop': "generationLoop snap batchId (batches snap ! idx) (m = Pro) gen during
       0 [] (setBatches (map mark) live) = (out, live2, c)"
    unfolding mark_def .
  have pb: "processBatch snap batchId m gen during live = (setBatches (map finish) live2, c)"
    unfolding finish_def by (rule processBatch_found [OF found loop])
  then show "snd (processBatch snap batchId m gen during live) = c" by simp
  from generationLoop_live [OF loop']
  have live2: "live2 = foldl handleEvent (setBatches (map mark) live) (concat (map during [0..<c]))"
    by simp
  show "batches (fst (processBatch snap batchId m gen during live)) ! i =
         (if batch_id (batches live ! i) = batchId
          then (case out of
                  Inr resUrls \<Rightarrow>
                    setResults m resUrls
                      ((batches live ! i)
                         \<lparr>status := Completed, processingMode := Some m, error := None\<rparr>)
                | Inl msg \<Rightarrow>
                    (batches live ! i)
                      \<lparr>status := Error, processingMode := Some m, error := Some msg\<rparr>)
          else (batches live ! i)\<lparr>status := status (batches live2 ! i)\<rparr>)"
    if i: "i < length (batches live)"
  proof -
    have l2: "length (batches live2) = length (batches live)"
      unfolding live2 by (rule awaited_length)
    have b2: "batches live2 ! i = (mark (batches live ! i))\<lparr>status := status (batches live2 ! i)\<rparr>"
      unfolding live2 by (rule awaited_nth [OF i])
    have fin: "batches (fst (processBatch snap batchId m gen during live)) ! i
                 = finish (batches live2 ! i)"
      unfolding pb using i l2 by (simp add: setBatches_def)
    have "finish ((mark (batches live ! i))\<lparr>status := s\<rparr>) =
         (if batch_id (batches live ! i) = batchId
          then (case out of
                  Inr resUrls \<Rightarrow>
                    setResults m resUrls
                      ((batches live ! i)
                         \<lparr>status := Completed, processingMode := Some m, error := None\<rparr>)
                | Inl msg \<Rightarrow>
                    (batches live ! i)
                      \<lparr>status := Error, processingMode := Some m, error := Some msg\<rparr>)
          else (batches live ! i)\<lparr>status := s\<rparr>)" for s
      by (cases out; cases m) (simp_all add: mark_def finish_def setResults_def)
    from this [of "status (batches live2 ! i)"] fin b2 show ?thesis by simp
  qed
qed

section \<open>Batch Runner: failure of the Generation Client\<close>

text \<open>
  Claim C3. For every batch run (\<^verbatim>\<open>processBatch\<close> on a given batch and tier), if any
  Generation Client call fails, the run aborts immediately and afterwards the batch's
  status is \<^verbatim>\<open>error\<close>, its error field holds the failure message, and the tier's result
  sequence is exactly what it was before the run started (no partial results committed).

  The run is one that starts (the snapshot holds the batch, at index \<open>idx\<close>), \<open>k\<close> is a
  call that the run made, and that call failed with message \<open>msg\<close>. Then the run made no
  call after it, and every batch of the store with the identifier of the run ends with
  status \<open>Error\<close>, with \<open>msg\<close> as its error and with both result sequences as they were,
  whatever stop buttons were pressed during the run.
\<close>

theorem processBatch_failure_rolls_back:
  assumes found: "findIndex (\<lambda>b. batch_id b = batchId) (batches snap) = Some idx"
    and made: "k < snd (processBatch snap batchId m gen during live)"
    and failed: "gen k (images (batches snap ! idx)) (customPrompt (batches snap ! idx)) None
                   (m = Pro) = Inl msg"
  shows "snd (processBatch snap batchId m gen during live) = Suc k \<and>
         length (batches (fst (processBatch snap batchId m gen during live)))
           = length (batches live) \<and>
         (\<forall>i < length (batches live). batch_id (batches live ! i) = batchId \<longrightarrow>
            status (batches (fst (processBatch snap batchId m gen during live)) ! i) = Error \<and>
            error (batches (fst (processBatch snap batchId m gen during live)) ! i) = Some msg \<and>
            results m (batches (fst (processBatch snap batchId m gen during live)) ! i)
              = results m (batches live ! i) \<and>
            resultsNormal (batches (fst (processBatch snap batchId m gen during live)) ! i)
              = resultsNormal (batches live ! i) \<and>
            resultsPro (batches (fst (processBatch snap batchId m gen during live)) ! i)
              = resultsPro (batches live ! i))"
proof -
  obtain out live2 c where
    loop: "generationLoop snap batchId (batches snap ! idx) (m = Pro) gen during 0 []
       (setBatches (map (\<lambda>b. if batch_id b = batchId
          then b\<lparr>status := Processing, processingMode := Some m, error := None\<rparr> else b)) live)
        = (out, live2, c)"
    by (rule prod_cases3)
  note calls = processBatch_run(1) [OF found loop]
  note pos = processBatch_run(2) [OF found loop]
  let ?call = "\<lambda>j. gen j (images (batches snap ! idx)) (customPrompt (batches snap ! idx)) None
                      (m = Pro)"
  from made calls have kc: "k < c" by simp
  from failed have isl: "isl (?call k)" by simp
  note oc = generationLoop_outcome [OF loop]
  have "out = Inl msg \<and> c = Suc k"
  proof (cases out)
    case (Inr urls)
    with oc kc isl show ?thesis by auto
  next
    case (Inl msg')
    with oc have last: "?call (c - 1) = Inl msg'"
      and before: "\<forall>j. j < c - 1 \<longrightarrow> \<not> isl (?call j)"
      by simp_all
    from before isl have "\<not> k < c - 1" by blast
    with kc have "c = Suc k" by simp
    with last failed Inl show ?thesis by simp
  qed
  then have out: "out = Inl msg" and c: "c = Suc k" by simp_all
  have "status (batches (fst (processBatch snap batchId m gen during live)) ! i) = Error \<and>
        error (batches (fst (processBatch snap batchId m gen during live)) ! i) = Some msg \<and>
        results m (batches (fst (processBatch snap batchId m gen during live)) ! i)
          = results m (batches live ! i) \<and>
        resultsNormal (batches (fst (processBatch snap batchId m gen during live)) ! i)
          = resultsNormal (batches live ! i) \<and>
        resultsPro (batches (fst (processBatch snap batchId m gen during live)) ! i)
          = resultsPro (batches live ! i)"
    if "i < length (batches live)" "batch_id (batches live ! i) = batchId" for i
    using pos [OF that(1)] that(2) out by (simp add: results_def)
  then have "\<forall>i < length (batches live). batch_id (batches live ! i) = batchId \<longrightarrow>
            status (batches (fst (processBatch snap batchId m gen during live)) ! i) = Error \<and>
            error (batches (fst (processBatch snap batchId m gen during live)) ! i) = Some msg \<and>
            results m (batches (fst (processBatch snap batchId m gen during live)) ! i)
              = results m (batches live ! i) \<and>
            resultsNormal (batches (fst (processBatch snap batchId m gen during live)) ! i)
              = resultsNormal (batches live ! i) \<and>
            resultsPro (batches (fst (processBatch snap batchId m gen during live)) ! i)
              = resultsPro (batches live ! i)"
    by (intro allI impI)
  moreover have "snd (processBatch snap batchId m gen during live) = Suc k"
    using calls c by (rule trans)
  moreover note processBatch_length [of snap batchId m gen during live]
  ultimately show ?thesis by (intro conjI)
qed

text \<open>A run of two calls on the example store whose second call fails: the first
  result is dropped, and the results of earlier runs stay.\<close>

theorem processBatch_failure_rolls_back_witness:
  "findIndex (\<lambda>b. batch_id b = js ''b1'') (batches demo_state) = Some 0
   \<and> 1 < snd (processBatch demo_state (js ''b1'') Normal failing_client no_events demo_state)
   \<and> failing_client 1 (images (batches demo_state ! 0)) (customPrompt (batches demo_state ! 0))
        None (Normal = Pro) = Inl (js ''quota exceeded'')
   \<and> snd (processBatch demo_state (js ''b1'') Normal failing_client no_events demo_state) = 2
   \<and> status (batches (fst (processBatch demo_state (js ''b1'') Normal failing_client no_events
                demo_state)) ! 0) = Error
   \<and> error (batches (fst (processBatch demo_state (js ''b1'') Normal failing_client no_events
                demo_state)) ! 0) = Some (js ''quota exceeded'')
   \<and> resultsNormal (batches (fst (processBatch demo_state (js ''b1'') Normal failing_client
                no_events demo_state)) ! 0) = [js ''old-normal'']"
proof -
  have found: "findIndex (\<lambda>b. batch_id b = js ''b1'') (batches demo_state) = Some 0"
    by (simp add: demo_state_def demo_batch_def)
  have made: "1 < snd (processBatch demo_state (js ''b1'') Normal failing_client no_events
                        demo_state)"
    by (simp add: run_eval failing_client_def no_events_def)
  have failed: "failing_client 1 (images (batches demo_state ! 0))
        (customPrompt (batches demo_state ! 0)) None (Normal = Pro) = Inl (js ''quota exceeded'')"
    by (simp add: failing_client_def)
  have here: "0 < length (batches demo_state)" "batch_id (batches demo_state ! 0) = js ''b1''"
    "resultsNormal (batches demo_state ! 0) = [js ''old-normal'']"
    by (simp_all add: demo_state_def demo_batch_def)
  from processBatch_failure_rolls_back [OF found made failed] here found made failed
  show ?thesis by simp
qed

section \<open>Batch Runner: stopping\<close>

text \<open>
  Claim C4 says that a run in which the batch's status becomes \<^verbatim>\<open>stopping\<close> before some
  iteration terminates early, with fewer than \<^verbatim>\<open>outputsPerBatch\<close> results. The loop does
  test for it before each call, but on \<^verbatim>\<open>batches\<close> and \<^verbatim>\<open>shouldStopGlobal\<close> of the render
  that started the run, which the \<^verbatim>\<open>STOP\<close> button cannot change. On the example store,
  with an output quantity of 2: \<^verbatim>\<open>STOP\<close> is pressed while the first call is awaited and
  sets the status of the batch to \<^verbatim>\<open>stopping\<close>; the run makes the second call all the
  same and ends \<^verbatim>\<open>completed\<close> with 2 results, not with at most 1. The same happens when
  \<^verbatim>\<open>Emergency Stop\<close> sets the global flag while the first call is awaited.
\<close>

theorem processBatch_stop_pressed_during_run:
  "outputsPerBatch demo_state = 2
   \<and> map status (batches demo_state) = [Idle]
   \<and> stop_during_first 0 = [StopBatch (js ''b1'')]
   \<and> map status (batches (handleEvent demo_state (StopBatch (js ''b1'')))) = [Stopping]
   \<and> snd (processBatch demo_state (js ''b1'') Normal ok_client stop_during_first demo_state) = 2
   \<and> map status (batches (fst (processBatch demo_state (js ''b1'') Normal ok_client
                      stop_during_first demo_state))) = [Completed]
   \<and> map resultsNormal (batches (fst (processBatch demo_state (js ''b1'') Normal ok_client
                      stop_during_first demo_state))) = [[js ''new0'', js ''new1'']]
   \<and> emergency_during_first 0 = [EmergencyStop]
   \<and> shouldStopGlobal (handleEvent demo_state EmergencyStop)
   \<and> snd (processBatch demo_state (js ''b1'') Normal ok_client emergency_during_first
            demo_state) = 2
   \<and> map resultsNormal (batches (fst (processBatch demo_state (js ''b1'') Normal ok_client
                      emergency_during_first demo_state))) = [[js ''new0'', js ''new1'']]"
  by (simp add: run_eval stop_during_first_def emergency_during_first_def ok_client_def js_def)

text \<open>What the test before each call does see is the state in which the run was started.
  A run started from a render in which the global flag is set, or in which the batch is
  \<^verbatim>\<open>stopping\<close>, makes no call and ends \<^verbatim>\<open>completed\<close> with an empty result sequence.\<close>

lemma findIndex_find:
  "findIndex p xs = Some i \<Longrightarrow> find p xs = Some (xs ! i)"
  by (induction xs arbitrary: i) (auto split: if_splits)

lemma processBatch_stopped_at_start:
  assumes found: "findIndex (\<lambda>b. batch_id b = batchId) (batches snap) = Some idx"
    and stop: "shouldStopGlobal snap \<or> status (batches snap ! idx) = Stopping"
    and i: "i < length (batches live)" "batch_id (batches live ! i) = batchId"
  shows "snd (processBatch snap batchId m gen during live) = 0"
    and "status (batches (fst (processBatch snap batchId m gen during live)) ! i) = Completed"
    and "results m (batches (fst (processBatch snap batchId m gen during live)) ! i) = []"
proof -
  let ?live1 = "setBatches (map (\<lambda>b. if batch_id b = batchId
          then b\<lparr>status := Processing, processingMode := Some m, error := None\<rparr> else b)) live"
  from findIndex_find [OF found] stop
  have loop: "generationLoop snap batchId (batches snap ! idx) (m = Pro) gen during 0 [] ?live1
                = (Inr [], ?live1, 0)"
    by (simp add: generationLoop.simps)
  from processBatch_run(1) [OF found loop]
  show "snd (processBatch snap batchId m gen during live) = 0" .
  from processBatch_run(2) [OF found loop i(1)] i(2)
  show "status (batches (fst (processBatch snap batchId m gen during live)) ! i) = Completed"
    and "results m (batches (fst (processBatch snap batchId m gen during live)) ! i) = []"
    by (simp_all add: setResults_def results_def)
qed

section \<open>Result Editing Session\<close>

lemma onSave_editTarget:
  "editTarget s = Some t \<Longrightarrow> editTarget (onSave img False s) = Some (t\<lparr>et_data := img\<rparr>)"
  by (simp add: onSave_def setBatches_def)

text \<open>
  Claim C5, as amended. For every Editing Session regenerate call whose Generation Client
  refinement fails, the session's current image and the Entity Store (so also the entry
  at the originating position) are exactly as they were before the call; the undo stack
  is the one before the call with the current image pushed onto it, and the redo stack
  is empty.

  The call is one that reaches the Generation Client: the modal is open on a target \<open>t\<close>
  and the prompt is not blank.
\<close>

theorem handleRegenerate_failure:
  assumes "editTarget s = Some t"
    and "trim (prompt md) \<noteq> []"
    and "gen 0 [] (Some (prompt md)) (Some (et_data t)) (et_mode t = Pro) = Inl e"
  shows "fst (handleRegenerate gen (s, md)) = s
         \<and> sessionImage (handleRegenerate gen (s, md)) = sessionImage (s, md)
         \<and> history (snd (handleRegenerate gen (s, md))) = history md @ [et_data t]
         \<and> redoStack (snd (handleRegenerate gen (s, md))) = []
         \<and> snd (handleRegenerate gen (s, md))
             = md\<lparr>history := history md @ [et_data t], redoStack := [],
                   isRegenerating := False, prompt := []\<rparr>"
  using assms by (simp add: handleRegenerate_def onEditRegenerate_def sessionImage_def)

theorem handleRegenerate_failure_witness:
  "editTarget (fst demo_session)
     = Some \<lparr>et_batchId = js ''b1'', et_index = 0, et_data = js ''old-normal'', et_mode = Normal\<rparr>
   \<and> trim (prompt (snd demo_session)) \<noteq> []
   \<and> refusing_client 0 [] (Some (prompt (snd demo_session))) (Some (js ''old-normal''))
        (Normal = Pro) = Inl (js ''quota exceeded'')
   \<and> fst (handleRegenerate refusing_client demo_session) = fst demo_session
   \<and> sessionImage (handleRegenerate refusing_client demo_session) = Some (js ''old-normal'')
   \<and> history (snd (handleRegenerate refusing_client demo_session))
       = [js ''older'', js ''old-normal'']
   \<and> redoStack (snd (handleRegenerate refusing_client demo_session)) = []"
proof -
  have target: "editTarget (fst demo_session)
     = Some \<lparr>et_batchId = js ''b1'', et_index = 0, et_data = js ''old-normal'', et_mode = Normal\<rparr>"
    by (simp add: demo_session_def)
  have prompt: "trim (prompt (snd demo_session)) \<noteq> []"
    by (simp add: demo_session_def trim_def isWhiteSpace_def js_def)
  have refused: "refusing_client 0 [] (Some (prompt (snd demo_session)))
      (Some (js ''old-normal'')) (Normal = Pro) = Inl (js ''quota exceeded'')"
    by (simp add: refusing_client_def)
  from handleRegenerate_failure
         [of "fst demo_session"
             "\<lparr>et_batchId = js ''b1'', et_index = 0, et_data = js ''old-normal'',
               et_mode = Normal\<rparr>"
             "snd demo_session" refusing_client "js ''quota exceeded''"]
       target prompt refused
  show ?thesis by (simp add: sessionImage_def demo_session_def)
qed

text \<open>Claim C5 as the specification states it fails: after the failed call of the example
  session the undo stack holds one more image than before, and the image to redo to is
  gone.\<close>

theorem handleRegenerate_failure_counterexample:
  "refusing_client 0 [] (Some (prompt (snd demo_session))) (Some (js ''old-normal''))
        (Normal = Pro) = Inl (js ''quota exceeded'')
   \<and> history (snd demo_session) = [js ''older'']
   \<and> history (snd (handleRegenerate refusing_client demo_session))
       = [js ''older'', js ''old-normal'']
   \<and> history (snd (handleRegenerate refusing_client demo_session)) \<noteq> history (snd demo_session)
   \<and> redoStack (snd demo_session) = [js ''newer'']
   \<and> redoStack (snd (handleRegenerate refusing_client demo_session)) = []"
  by (simp add: session_eval refusing_client_def trim_def isWhiteSpace_def js_def)

text \<open>
  Claim C6. For every Editing Session state with a non-empty undo stack, performing undo
  and then redo restores exactly the image that was current before the undo (bit-for-bit
  round trip); and every regenerate call empties the redo stack.

  A session state is one in which the modal is open on a target \<open>t\<close>. Undo makes the most
  recent image of the undo stack current; redo after it restores the image and both
  stacks. A regenerate call is one with a prompt that is not blank: the button is
  disabled otherwise, and the handler returns at once.
\<close>

theorem undo_redo_round_trip:
  "(editTarget s = Some t \<and> history md \<noteq> [] \<longrightarrow>
      sessionImage (handleUndo (s, md)) = Some (last (history md)) \<and>
      sessionImage (handleRedo (handleUndo (s, md))) = sessionImage (s, md) \<and>
      history (snd (handleRedo (handleUndo (s, md)))) = history md \<and>
      redoStack (snd (handleRedo (handleUndo (s, md)))) = redoStack md)
   \<and> (editTarget s = Some t \<and> trim (prompt md) \<noteq> [] \<longrightarrow>
      redoStack (snd (handleRegenerate gen (s, md))) = [])"
  by (simp add: handleUndo_def handleRedo_def handleRegenerate_def sessionImage_def
        onSave_editTarget Let_def)

theorem undo_redo_round_trip_witness:
  "editTarget (fst demo_session)
     = Some \<lparr>et_batchId = js ''b1'', et_index = 0, et_data = js ''old-normal'', et_mode = Normal\<rparr>
   \<and> history (snd demo_session) = [js ''older'']
   \<and> trim (prompt (snd demo_session)) \<noteq> []
   \<and> sessionImage (handleUndo demo_session) = Some (js ''older'')
   \<and> sessionImage (handleRedo (handleUndo demo_session)) = Some (js ''old-normal'')
   \<and> history (snd (handleRedo (handleUndo demo_session))) = [js ''older'']
   \<and> redoStack (snd (handleRedo (handleUndo demo_session))) = [js ''newer'']
   \<and> redoStack (snd (handleRegenerate ok_client demo_session)) = []"
proof -
  have target: "editTarget (fst demo_session)
     = Some \<lparr>et_batchId = js ''b1'', et_index = 0, et_data = js ''old-normal'', et_mode = Normal\<rparr>"
    by (simp add: demo_session_def)
  have stack: "history (snd demo_session) = [js ''older'']"
    "redoStack (snd demo_session) = [js ''newer'']"
    by (simp_all add: demo_session_def)
  have prompt: "trim (prompt (snd demo_session)) \<noteq> []"
    by (simp add: demo_session_def trim_def isWhiteSpace_def js_def)
  from undo_redo_round_trip
         [of "fst demo_session"
             "\<lparr>et_batchId = js ''b1'', et_index = 0, et_data = js ''old-normal'',
               et_mode = Normal\<rparr>"
             "snd demo_session" ok_client]
       target stack prompt
  show ?thesis by (simp add: sessionImage_def)
qed

section \<open>Fleet Controller\<close>

text \<open>
  Claim C7. If the global stop flag is set before \<^verbatim>\<open>runAll\<close> (\<^verbatim>\<open>processAll\<close>) is invoked,
  then \<^verbatim>\<open>runAll\<close> starts zero batch runs: no batch's run is begun and no batch's state or
  result sequences change.

  The flag that is set before the handler is invoked is the flag of the render the
  handler is the closure of, \<open>snap\<close>. The handler begins no run and leaves the batches of
  the store as they are; it changes the two flags only.
\<close>

theorem processAll_stop_flag_set:
  assumes "shouldStopGlobal snap"
  shows "snd (processAll snap m gens durings live) = 0 \<and>
         batches (fst (processAll snap m gens durings live)) = batches live \<and>
         fst (processAll snap m gens durings live)
           = live\<lparr>isProcessingAll := False, shouldStopGlobal := False\<rparr>"
  using assms by (cases "batches snap") (simp_all add: processAll_def)

theorem processAll_stop_flag_set_witness:
  "shouldStopGlobal stopped_state
   \<and> snd (processAll stopped_state Normal (\<lambda>j. ok_client) (\<lambda>j. no_events) stopped_state) = 0
   \<and> batches (fst (processAll stopped_state Normal (\<lambda>j. ok_client) (\<lambda>j. no_events)
                     stopped_state)) = [demo_batch]"
proof -
  have flag: "shouldStopGlobal stopped_state"
    by (simp add: stopped_state_def emergencyStop_def)
  have "batches stopped_state = [demo_batch]"
    by (simp add: stopped_state_def emergencyStop_def demo_state_def)
  with processAll_stop_flag_set [OF flag, of Normal "\<lambda>j. ok_client" "\<lambda>j. no_events"
         stopped_state] flag
  show ?thesis by simp
qed


section \<open>Batch Runner: what a run leaves alone\<close>

text \<open>
  Claim C8. For every batch run on tier \<open>t\<close> (normal or pro), the other tier's result
  sequence is left unchanged, and the batch's images, name, id, and customPrompt are also
  unchanged by the run; only status, processingMode, error, and tier \<open>t\<close>'s result
  sequence may differ afterwards.

  This holds for every batch of the store and every outcome of the run, whatever stop
  buttons are pressed during it: the store keeps its length, and the batch at each
  position is the one before the run with at most those four fields rewritten.
\<close>

theorem processBatch_frame:
  "length (batches (fst (processBatch snap batchId m gen during live))) = length (batches live)
   \<and> (\<forall>i < length (batches live).
        batch_id (batches (fst (processBatch snap batchId m gen during live)) ! i)
          = batch_id (batches live ! i) \<and>
        name (batches (fst (processBatch snap batchId m gen during live)) ! i)
          = name (batches live ! i) \<and>
        images (batches (fst (processBatch snap batchId m gen during live)) ! i)
          = images (batches live ! i) \<and>
        customPrompt (batches (fst (processBatch snap batchId m gen during live)) ! i)
          = customPrompt (batches live ! i) \<and>
        results (if m = Pro then Normal else Pro)
            (batches (fst (processBatch snap batchId m gen during live)) ! i)
          = results (if m = Pro then Normal else Pro) (batches live ! i) \<and>
        batches (fst (processBatch snap batchId m gen during live)) ! i
          = setResults m
              (results m (batches (fst (processBatch snap batchId m gen during live)) ! i))
              ((batches live ! i)
                 \<lparr>status :=
                    status (batches (fst (processBatch snap batchId m gen during live)) ! i),
                  processingMode :=
                    processingMode
                      (batches (fst (processBatch snap batchId m gen during live)) ! i),
                  error :=
                    error (batches (fst (processBatch snap batchId m gen during live)) ! i)\<rparr>))"
  (is "_ \<and> (\<forall>i < _. ?P i)")
proof (cases "findIndex (\<lambda>b. batch_id b = batchId) (batches snap)")
  case None
  then have "fst (processBatch snap batchId m gen during live) = live"
    by (simp add: processBatch_not_found)
  then show ?thesis by (simp add: setResults_def results_def)
next
  case (Some idx)
  obtain out live2 c where
    loop: "generationLoop snap batchId (batches snap ! idx) (m = Pro) gen during 0 []
       (setBatches (map (\<lambda>b. if batch_id b = batchId
          then b\<lparr>status := Processing, processingMode := Some m, error := None\<rparr> else b)) live)
        = (out, live2, c)"
    by (rule prod_cases3)
  note pos = processBatch_run(2) [OF Some loop]
  have "?P i" if i: "i < length (batches live)" for i
    unfolding pos [OF i]
    by (cases out; cases m) (simp_all add: setResults_def results_def)
  then have every: "\<forall>i < length (batches live). ?P i"
    by (intro allI impI)
  from processBatch_length [of snap batchId m gen during live] every
  show ?thesis by (rule conjI)
qed

text \<open>A normal run on the example store, with \<^verbatim>\<open>STOP\<close> pressed during the first call.\<close>

theorem processBatch_frame_witness:
  "0 < length (batches demo_state)
   \<and> length (batches (fst (processBatch demo_state (js ''b1'') Normal ok_client
                 stop_during_first demo_state))) = 1
   \<and> name (batches (fst (processBatch demo_state (js ''b1'') Normal ok_client
                 stop_during_first demo_state)) ! 0) = js ''Cats''
   \<and> images (batches (fst (processBatch demo_state (js ''b1'') Normal ok_client
                 stop_during_first demo_state)) ! 0) = images demo_batch
   \<and> resultsPro (batches (fst (processBatch demo_state (js ''b1'') Normal ok_client
                 stop_during_first demo_state)) ! 0) = [js ''old-pro'']"
proof -
  have here: "0 < length (batches demo_state)" "batches demo_state ! 0 = demo_batch"
    "length (batches demo_state) = 1"
    by (simp_all add: demo_state_def)
  have "name demo_batch = js ''Cats''" "results Pro demo_batch = [js ''old-pro'']"
    by (simp_all add: demo_batch_def results_def)
  with processBatch_frame [of demo_state "js ''b1''" Normal ok_client stop_during_first
         demo_state] here
  show ?thesis by (simp add: results_def)
qed

section \<open>At most five reference images\<close>

lemma newImages_length: "newImages rnd n fs = Inr imgs \<Longrightarrow> length imgs = length fs"
  by (induction fs arbitrary: n imgs) (auto split: option.splits sum.splits)

lemma newBatches_bounded:
  "newBatches rnd n entries = Inr bs \<Longrightarrow> \<forall>b \<in> set bs. length (images b) \<le> 5"
proof (induction entries arbitrary: n bs)
  case Nil
  then show ?case by simp
next
  case (Cons e entries)
  obtain nm fs where e: "e = (nm, fs)" by (cases e)
  from Cons.prems e obtain imgs bs' where
    imgs: "newImages rnd (Suc n) (take 5 fs) = Inr imgs"
    and rest: "newBatches rnd (Suc n + length (take 5 fs)) entries = Inr bs'"
    and bs: "bs = \<lparr>batch_id = rnd n, name = nm, images = imgs, status = Idle,
                  processingMode = None, resultsNormal = [], resultsPro = [],
                  customPrompt = None, error = None\<rparr> # bs'"
    by (auto split: sum.splits)
  from newImages_length [OF imgs] have "length imgs \<le> 5" by simp
  with Cons.IH [OF rest] bs show ?case by simp
qed

lemma handleFolderUpload_bounded:
  assumes "\<forall>b \<in> set (batches s). length (images b) \<le> 5"
    and "handleFolderUpload rnd files s = Inr s'"
  shows "\<forall>b \<in> set (batches s'). length (images b) \<le> 5"
  using assms newBatches_bounded
  by (fastforce simp: handleFolderUpload_def setBatches_def split: sum.splits)

lemma setBatches_map_bounded:
  assumes "\<forall>b \<in> set (batches s). length (images b) \<le> 5"
    and "\<And>b. length (images b) \<le> 5 \<Longrightarrow> length (images (f b)) \<le> 5"
  shows "\<forall>b \<in> set (batches (setBatches (map f) s)). length (images b) \<le> 5"
  using assms by (auto simp: setBatches_def)

lemma handleInputDropAdd_bounded:
  assumes "\<forall>b \<in> set (batches s). length (images b) \<le> 5"
    and "handleInputDropAdd newId batchId f s = Inr s'"
  shows "\<forall>b \<in> set (batches s'). length (images b) \<le> 5"
proof (cases "startsWith (ftype f) (js ''image/'')")
  case False
  with assms show ?thesis by (simp add: handleInputDropAdd_def)
next
  case True
  with assms(2) obtain b64 where s':
    "s' = setBatches (map (\<lambda>b.
               if batch_id b = batchId
               then b\<lparr>images := take 5 (images b @
                      [\<lparr>image_id = newId, image_file = f, preview = objectURL f,
                        base64 = b64\<rparr>])\<rparr>
               else b)) s"
    by (auto simp: handleInputDropAdd_def split: option.splits)
  show ?thesis
    unfolding s' by (rule setBatches_map_bounded [OF assms(1)]) (auto simp: min_def)
qed

lemma handleInputDropReplace_bounded:
  assumes "\<forall>b \<in> set (batches s). length (images b) \<le> 5"
    and "handleInputDropReplace batchId imgId f s = Inr s'"
  shows "\<forall>b \<in> set (batches s'). length (images b) \<le> 5"
proof (cases "startsWith (ftype f) (js ''image/'')")
  case False
  with assms show ?thesis by (simp add: handleInputDropReplace_def)
next
  case True
  with assms(2) obtain b64 where s':
    "s' = setBatches (map (\<lambda>b.
               if batch_id b = batchId
               then b\<lparr>images := map (\<lambda>i.
                      if image_id i = imgId
                      then i\<lparr>base64 := b64, preview := objectURL f, image_file := f\<rparr>
                      else i) (images b)\<rparr>
               else b)) s"
    by (auto simp: handleInputDropReplace_def split: option.splits)
  show ?thesis
    unfolding s' by (rule setBatches_map_bounded [OF assms(1)]) (auto simp: min_def)
qed

lemma handleDeleteInput_bounded:
  assumes "\<forall>b \<in> set (batches s). length (images b) \<le> 5"
  shows "\<forall>b \<in> set (batches (handleDeleteInput batchId imgId s)). length (images b) \<le> 5"
proof -
  have "length (filter p xs) \<le> 5" if "length xs \<le> 5" for p :: "ImageFile \<Rightarrow> bool" and xs
    using order_trans [OF length_filter_le that] .
  then show ?thesis
    unfolding handleDeleteInput_def
    by (intro setBatches_map_bounded [OF assms]) simp
qed

lemma applyImageOp_bounded:
  assumes "\<forall>b \<in> set (batches s). length (images b) \<le> 5"
  shows "\<forall>b \<in> set (batches (applyImageOp s op)). length (images b) \<le> 5"
proof (cases op)
  case (FolderUpload rnd files)
  with assms handleFolderUpload_bounded [OF assms, of rnd files] show ?thesis
    by (cases "handleFolderUpload rnd files s") (simp_all add: settled_def)
next
  case (DropAdd newId batchId f)
  with assms handleInputDropAdd_bounded [OF assms, of newId batchId f] show ?thesis
    by (cases "handleInputDropAdd newId batchId f s") (simp_all add: settled_def)
next
  case (DropReplace batchId imgId f)
  with assms handleInputDropReplace_bounded [OF assms, of batchId imgId f] show ?thesis
    by (cases "handleInputDropReplace batchId imgId f s") (simp_all add: settled_def)
next
  case (DeleteInput batchId imgId)
  with handleDeleteInput_bounded [OF assms] show ?thesis by simp
qed

lemma applyImageOps_bounded:
  "\<forall>b \<in> set (batches s). length (images b) \<le> 5
   \<Longrightarrow> \<forall>b \<in> set (batches (foldl applyImageOp s ops)). length (images b) \<le> 5"
proof (induction ops arbitrary: s)
  case Nil
  then show ?case by simp
next
  case (Cons op ops)
  from Cons.IH [OF applyImageOp_bounded [OF Cons.prems, of op]] show ?case by simp
qed

text \<open>
  Claim C9. For every batch and after every operation (folder import, drag-drop add,
  drag-drop replace, delete), the batch's images sequence has length at most 5, no matter
  how many files are imported or dropped.

  The bound is an invariant of the four operations: it holds after any sequence of them
  from a store in which it holds, and so after any sequence of them from the empty store
  the application starts with.
\<close>

theorem images_never_exceed_five:
  "((\<forall>b \<in> set (batches s). length (images b) \<le> 5) \<longrightarrow>
      (\<forall>b \<in> set (batches (foldl applyImageOp s ops)). length (images b) \<le> 5))
   \<and> (\<forall>b \<in> set (batches (foldl applyImageOp initialState ops)). length (images b) \<le> 5)"
proof -
  have "\<forall>b \<in> set (batches initialState). length (images b) \<le> 5"
    by (simp add: initialState_def)
  from applyImageOps_bounded [OF this] applyImageOps_bounded [of s ops]
  show ?thesis by blast
qed

text \<open>A folder of seven images makes a batch of five, and a file dropped onto that batch
  is not added.\<close>

theorem images_never_exceed_five_witness:
  "length seven_files = 7
   \<and> map (\<lambda>b. (batch_id b, length (images b)))
        (batches (foldl applyImageOp initialState [FolderUpload demo_rnd seven_files]))
       = [(js ''a'', 5)]
   \<and> map (\<lambda>b. length (images b)) (batches (foldl applyImageOp initialState demo_ops)) = [5]
   \<and> list_all (\<lambda>b. length (images b) \<le> 5) (batches (foldl applyImageOp initialState demo_ops))"
  using images_never_exceed_five [of initialState demo_ops]
  by (simp add: list_all_iff demo_ops_def seven_files_def handleInputDropAdd_def
        import_eval string_eval)

section \<open>Batch Runner: a run without failure\<close>

text \<open>
  Claim C10. When a batch run finishes without a Generation Client failure, the tier's
  result sequence is replaced wholesale by exactly the images generated during this run:
  any results that tier held from earlier runs are discarded, not appended to, and the
  new sequence's length equals the number of successful calls made this run (at most
  \<^verbatim>\<open>outputsPerBatch\<close>).

  The run is one that starts (the snapshot holds the batch, at index \<open>idx\<close>), and every
  call it made succeeded. Then every batch of the store with the identifier of the run
  ends \<open>Completed\<close>, and its result sequence of the tier is the list of what the calls of
  this run delivered, in call order.
\<close>

theorem processBatch_success_replaces_results:
  assumes found: "findIndex (\<lambda>b. batch_id b = batchId) (batches snap) = Some idx"
    and ok: "\<forall>k < snd (processBatch snap batchId m gen during live).
               \<not> isl (gen k (images (batches snap ! idx)) (customPrompt (batches snap ! idx))
                        None (m = Pro))"
  shows "snd (processBatch snap batchId m gen during live) \<le> outputsPerBatch snap \<and>
         (\<forall>i < length (batches live). batch_id (batches live ! i) = batchId \<longrightarrow>
            status (batches (fst (processBatch snap batchId m gen during live)) ! i) = Completed \<and>
            results m (batches (fst (processBatch snap batchId m gen during live)) ! i)
              = map (\<lambda>k. projr (gen k (images (batches snap ! idx))
                                  (customPrompt (batches snap ! idx)) None (m = Pro)))
                  [0..<snd (processBatch snap batchId m gen during live)] \<and>
            length (results m (batches (fst (processBatch snap batchId m gen during live)) ! i))
              = snd (processBatch snap batchId m gen during live))"
proof -
  obtain out live2 c where
    loop: "generationLoop snap batchId (batches snap ! idx) (m = Pro) gen during 0 []
       (setBatches (map (\<lambda>b. if batch_id b = batchId
          then b\<lparr>status := Processing, processingMode := Some m, error := None\<rparr> else b)) live)
        = (out, live2, c)"
    by (rule prod_cases3)
  note calls = processBatch_run(1) [OF found loop]
  note pos = processBatch_run(2) [OF found loop]
  let ?call = "\<lambda>j. gen j (images (batches snap ! idx)) (customPrompt (batches snap ! idx)) None
                      (m = Pro)"
  note oc = generationLoop_outcome [OF loop]
  from oc have le: "c \<le> outputsPerBatch snap" by simp
  obtain urls where out: "out = Inr urls"
  proof (cases out)
    case (Inl msg)
    with oc have "0 < c" and "?call (c - 1) = Inl msg" by simp_all
    then have "c - 1 < c" and "isl (?call (c - 1))" by simp_all
    with ok calls show ?thesis by blast
  next
    case (Inr urls)
    with that show ?thesis .
  qed
  with oc have urls: "urls = map (\<lambda>k. projr (?call k)) [0..<c]" by simp
  have "status (batches (fst (processBatch snap batchId m gen during live)) ! i) = Completed \<and>
        results m (batches (fst (processBatch snap batchId m gen during live)) ! i)
          = map (\<lambda>k. projr (?call k)) [0..<c] \<and>
        length (results m (batches (fst (processBatch snap batchId m gen during live)) ! i)) = c"
    if "i < length (batches live)" "batch_id (batches live ! i) = batchId" for i
    using pos [OF that(1)] that(2) out urls by (cases m) (simp_all add: setResults_def results_def)
  then have "\<forall>i < length (batches live). batch_id (batches live ! i) = batchId \<longrightarrow>
        status (batches (fst (processBatch snap batchId m gen during live)) ! i) = Completed \<and>
        results m (batches (fst (processBatch snap batchId m gen during live)) ! i)
          = map (\<lambda>k. projr (?call k)) [0..<c] \<and>
        length (results m (batches (fst (processBatch snap batchId m gen during live)) ! i)) = c"
    by (intro allI impI)
  with le show ?thesis unfolding calls by (intro conjI)
qed

text \<open>A normal run of two successful calls on the example store: the result of the
  earlier run is gone.\<close>

theorem processBatch_success_replaces_results_witness:
  "findIndex (\<lambda>b. batch_id b = js ''b1'') (batches demo_state) = Some 0
   \<and> snd (processBatch demo_state (js ''b1'') Normal ok_client no_events demo_state) = 2
   \<and> \<not> isl (ok_client 0 (images (batches demo_state ! 0)) (customPrompt (batches demo_state ! 0))
               None (Normal = Pro))
   \<and> \<not> isl (ok_client 1 (images (batches demo_state ! 0)) (customPrompt (batches demo_state ! 0))
               None (Normal = Pro))
   \<and> resultsNormal (batches demo_state ! 0) = [js ''old-normal'']
   \<and> status (batches (fst (processBatch demo_state (js ''b1'') Normal ok_client no_events
                demo_state)) ! 0) = Completed
   \<and> resultsNormal (batches (fst (processBatch demo_state (js ''b1'') Normal ok_client no_events
                demo_state)) ! 0) = [js ''new0'', js ''new1'']"
proof -
  have found: "findIndex (\<lambda>b. batch_id b = js ''b1'') (batches demo_state) = Some 0"
    by (simp add: demo_state_def demo_batch_def)
  have calls: "snd (processBatch demo_state (js ''b1'') Normal ok_client no_events demo_state) = 2"
    by (simp add: run_eval ok_client_def no_events_def)
  have ok: "\<forall>k < snd (processBatch demo_state (js ''b1'') Normal ok_client no_events demo_state).
              \<not> isl (ok_client k (images (batches demo_state ! 0))
                       (customPrompt (batches demo_state ! 0)) None (Normal = Pro))"
    by (simp add: ok_client_def)
  have here: "0 < length (batches demo_state)" "batch_id (batches demo_state ! 0) = js ''b1''"
    "resultsNormal (batches demo_state ! 0) = [js ''old-normal'']"
    by (simp_all add: demo_state_def demo_batch_def)
  have two: "[0..<2] = [0, Suc 0]" by (simp add: upt_rec)
  from processBatch_success_replaces_results [OF found ok] here found calls
  show ?thesis by (simp add: results_def ok_client_def two js_def)
qed


end
